theory Spec2Isabelle
  imports Main "HOL-Library.AList" "HOL-Library.Multiset"
begin

section \<open>Tasks, buckets and the task collection\<close>

text \<open>
  A task is the object literal that \<open>addTask\<close> builds. The field \<open>id\<close> is a JavaScript
  number (a \<open>Date.now()\<close> reading), \<open>status\<close> is one of the strings \<open>pending\<close>,
  \<open>in-progress\<close>, \<open>completed\<close>, and the two date fields hold a date key or \<open>null\<close>.
  The fields \<open>id\<close> and \<open>text\<close> are called \<open>task_id\<close> and \<open>task_text\<close> here.
  The text is what the user typed, a JavaScript string: the list of its UTF-16 code
  units. \<open>js\<close> writes an ASCII literal as such a list.
\<close>

type_synonym jstring = "int list"

definition js :: "string \<Rightarrow> jstring" where
  "js str = map of_char str"

record task =
  task_id :: int
  task_text :: jstring
  status :: string
  completed :: bool
  completedDate :: "string option"
  moved :: bool
  originalDate :: "string option"

text \<open>
  \<open>this.tasks\<close> is \<open>{ personal: {dateKey: [task, ...]}, work: {...}, pool: [task, ...] }\<close>
  (\<open>loadTasks\<close>). An object keyed by date strings is an association list in insertion
  order, read with \<open>map_of\<close> and written with \<open>AList.update\<close>, which replaces the value
  of a key in place and appends a new key at the end. The three members are taken to be
  present, as in every collection \<open>loadTasks\<close> creates and \<open>saveTasks\<close> stores; the guards
  \<open>if (!this.tasks[category]) this.tasks[category] = {}\<close> and
  \<open>if (!this.tasks.pool) this.tasks.pool = []\<close> then do nothing.
\<close>

type_synonym buckets = "(string \<times> task list) list"

record collection =
  personal :: buckets
  work :: buckets
  pool :: "task list"

datatype dated = Personal | Work

datatype category = Dated dated | Pool

datatype error = TypeError

text \<open>
  The planner object: the viewed date \<open>this.currentDate\<close> (a \<open>Date\<close>, modelled by its
  time value, the milliseconds since the epoch) and \<open>this.tasks\<close>.
\<close>

record planner =
  currentDate :: int
  tasks :: collection

definition emptyCollection :: collection where
  "emptyCollection = \<lparr>personal = [], work = [], pool = []\<rparr>"

definition buckets_of :: "collection \<Rightarrow> dated \<Rightarrow> buckets" where
  "buckets_of c cat = (case cat of Personal \<Rightarrow> personal c | Work \<Rightarrow> work c)"

definition set_buckets :: "dated \<Rightarrow> buckets \<Rightarrow> collection \<Rightarrow> collection" where
  "set_buckets cat b c = (case cat of Personal \<Rightarrow> c\<lparr>personal := b\<rparr> | Work \<Rightarrow> c\<lparr>work := b\<rparr>)"

text \<open>\<open>this.tasks[category][dateKey]\<close>: \<open>None\<close> is JavaScript's \<open>undefined\<close>.\<close>

definition bucket :: "planner \<Rightarrow> dated \<Rightarrow> string \<Rightarrow> task list option" where
  "bucket s cat k = map_of (buckets_of (tasks s) cat) k"

text \<open>\<open>this.tasks[category][dateKey] = ts\<close>.\<close>

definition put_bucket :: "dated \<Rightarrow> string \<Rightarrow> task list \<Rightarrow> planner \<Rightarrow> planner" where
  "put_bucket cat k ts s =
     s\<lparr>tasks := set_buckets cat (AList.update k ts (buckets_of (tasks s) cat)) (tasks s)\<rparr>"

text \<open>
  \<open>if (!this.tasks[category][dateKey]) this.tasks[category][dateKey] = [];
  this.tasks[category][dateKey].push(t)\<close>: the bucket is created on the first write.
\<close>

definition push_task :: "dated \<Rightarrow> string \<Rightarrow> task \<Rightarrow> planner \<Rightarrow> planner" where
  "push_task cat k t s =
     put_bucket cat k ((case bucket s cat k of None \<Rightarrow> [] | Some ts \<Rightarrow> ts) @ [t]) s"

definition set_pool :: "task list \<Rightarrow> planner \<Rightarrow> planner" where
  "set_pool ts s = s\<lparr>tasks := (tasks s)\<lparr>pool := ts\<rparr>\<rparr>"

text \<open>\<open>Array.prototype.findIndex\<close>; \<open>None\<close> is the result \<open>-1\<close>.\<close>

fun findIndex :: "('a \<Rightarrow> bool) \<Rightarrow> 'a list \<Rightarrow> nat option" where
  "findIndex P [] = None"
| "findIndex P (x # xs) = (if P x then Some 0 else map_option Suc (findIndex P xs))"

text \<open>\<open>xs.splice(i, 1)\<close> and \<open>xs.splice(i, 0, x)\<close> (an index beyond the end appends).\<close>

definition splice_out :: "nat \<Rightarrow> 'a list \<Rightarrow> 'a list" where
  "splice_out i xs = take i xs @ drop (Suc i) xs"

definition splice_in :: "nat \<Rightarrow> 'a \<Rightarrow> 'a list \<Rightarrow> 'a list" where
  "splice_in i x xs = take i xs @ [x] @ drop i xs"

text \<open>
  \<open>String.prototype.trim\<close> strips the white space and the line terminators of ECMAScript
  from both ends: tab, line feed, vertical tab, form feed, carriage return, space,
  U+00A0, U+1680, U+2000 to U+200A, U+2028, U+2029, U+202F, U+205F, U+3000 and U+FEFF.
\<close>

definition is_space :: "int \<Rightarrow> bool" where
  "is_space u =
     (u \<in> set [0x09, 0x0A, 0x0B, 0x0C, 0x0D, 0x20, 0xA0, 0x1680, 0x2000, 0x2001, 0x2002,
        0x2003, 0x2004, 0x2005, 0x2006, 0x2007, 0x2008, 0x2009, 0x200A, 0x2028, 0x2029,
        0x202F, 0x205F, 0x3000, 0xFEFF])"

definition trim :: "jstring \<Rightarrow> jstring" where
  "trim str = rev (dropWhile is_space (rev (dropWhile is_space str)))"

section \<open>Date keys\<close>

text \<open>
  \<open>formatDateKey(date)\<close> is \<open>date.toISOString().split('T')[0]\<close>: the calendar date of
  the time value in UTC. \<open>toISOString\<close> is the platform's; it is modelled by the
  proleptic Gregorian date of the day number \<open>t div 86400000\<close>, written \<open>YYYY-MM-DD\<close>
  (and with a sign and six digits for a year outside 0..9999).
\<close>

definition msPerDay :: int where
  "msPerDay = 86400000"

definition civil_from_days :: "int \<Rightarrow> int \<times> int \<times> int" where
  "civil_from_days z0 =
     (let z = z0 + 719468;
          era = z div 146097;
          doe = z mod 146097;
          yoe = (doe - doe div 1460 + doe div 36524 - doe div 146096) div 365;
          doy = doe - (365 * yoe + yoe div 4 - yoe div 100);
          mp = (5 * doy + 2) div 153;
          d = doy - (153 * mp + 2) div 5 + 1;
          m = (if mp < 10 then mp + 3 else mp - 9);
          y = yoe + era * 400 + (if m \<le> 2 then 1 else 0)
      in (y, m, d))"

definition digit :: "int \<Rightarrow> char" where
  "digit n = ''0123456789'' ! nat (n mod 10)"

definition pad2 :: "int \<Rightarrow> string" where
  "pad2 n = [digit (n div 10), digit n]"

definition pad4 :: "int \<Rightarrow> string" where
  "pad4 n = [digit (n div 1000), digit (n div 100), digit (n div 10), digit n]"

definition year_str :: "int \<Rightarrow> string" where
  "year_str y =
     (if 0 \<le> y \<and> y \<le> 9999 then pad4 y
      else (if y < 0 then ''-'' else ''+'') @ pad2 (\<bar>y\<bar> div 10000) @ pad4 \<bar>y\<bar>)"

definition iso_date :: "int \<Rightarrow> string" where
  "iso_date dayno =
     (case civil_from_days dayno of (y, m, d) \<Rightarrow> year_str y @ ''-'' @ pad2 m @ ''-'' @ pad2 d)"

definition formatDateKey :: "int \<Rightarrow> string" where
  "formatDateKey date = iso_date (date div msPerDay)"

definition getDateKey :: "planner \<Rightarrow> string" where
  "getDateKey s = formatDateKey (currentDate s)"

text \<open>
  The local time zone of the browser, as ECMAScript uses it: \<open>localTime t\<close> is the local
  time value \<open>LocalTime(t)\<close> of the time value \<open>t\<close>, and \<open>utcTime l\<close> is the time value
  \<open>UTC(l)\<close> of the local time value \<open>l\<close>. The offset between the two may change with the
  date (summer time).

  \<open>d.setDate(d.getDate() + n)\<close> moves a date by \<open>n\<close> days of the local calendar and keeps
  the local time of day: the local time value of \<open>d\<close> plus \<open>n\<close> times 24 hours, taken back to
  a time value. Across a clock change the result is 23 or 25 hours away.
\<close>

record zone =
  localTime :: "int \<Rightarrow> int"
  utcTime :: "int \<Rightarrow> int"

definition addDays :: "zone \<Rightarrow> int \<Rightarrow> int \<Rightarrow> int" where
  "addDays tz date n = utcTime tz (localTime tz date + n * msPerDay)"

text \<open>
  The calendar date of a time value in a time zone \<open>tz\<close> minutes east of UTC, as
  \<open>toLocaleDateString\<close>, \<open>getDate\<close> and \<open>toDateString\<close> read it, written as a date key.
\<close>

definition localDateKey :: "int \<Rightarrow> int \<Rightarrow> string" where
  "localDateKey tz date = iso_date ((date + tz * 60000) div msPerDay)"

section \<open>The operations of the planner\<close>

text \<open>
  Every operation takes the planner and returns the planner it leaves, or the error it
  throws. \<open>now\<close> is the reading of \<open>Date.now()\<close> and \<open>tz\<close> the local time zone.
  \<open>saveTasks\<close> and \<open>renderTasks\<close> write the collection out and do not change it.
\<close>

definition has_id :: "int \<Rightarrow> task \<Rightarrow> bool" where
  "has_id taskId t = (task_id t = taskId)"

definition addTask :: "int \<Rightarrow> dated \<Rightarrow> jstring \<Rightarrow> planner \<Rightarrow> error + planner" where
  "addTask now category input s =
     (let text = trim input in
      if text = [] then Inr s
      else
        let dateKey = getDateKey s;
            task = \<lparr>task_id = now, task_text = text, status = ''pending'', completed = False,
                    completedDate = None, moved = False, originalDate = Some dateKey\<rparr>
        in Inr (push_task category dateKey task s))"

definition addPoolTask :: "int \<Rightarrow> jstring \<Rightarrow> planner \<Rightarrow> error + planner" where
  "addPoolTask now input s =
     (let text = trim input in
      if text = [] then Inr s
      else
        let task = \<lparr>task_id = now, task_text = text, status = ''pending'', completed = False,
                    completedDate = None, moved = False, originalDate = None\<rparr>
        in Inr (set_pool (pool (tasks s) @ [task]) s))"

definition completePoolTask :: "int \<Rightarrow> planner \<Rightarrow> error + planner" where
  "completePoolTask taskId s =
     (let poolTasks = pool (tasks s) in
      case findIndex (has_id taskId) poolTasks of
        None \<Rightarrow> Inr s
      | Some taskIndex \<Rightarrow>
          let task = poolTasks ! taskIndex;
              s1 = set_pool (splice_out taskIndex poolTasks) s;
              dateKey = getDateKey s;
              completedTask = task\<lparr>completed := True, status := ''completed'',
                  completedDate := Some dateKey, originalDate := Some dateKey, moved := False\<rparr>
          in Inr (push_task Personal dateKey completedTask s1))"

definition completeTask :: "category \<Rightarrow> int \<Rightarrow> planner \<Rightarrow> error + planner" where
  "completeTask category taskId s =
     (case category of
        Pool \<Rightarrow> completePoolTask taskId s
      | Dated c \<Rightarrow>
          (let dateKey = getDateKey s in
           case bucket s c dateKey of
             None \<Rightarrow> Inl TypeError
           | Some ts \<Rightarrow>
              (case findIndex (has_id taskId) ts of
                 None \<Rightarrow> Inr s
               | Some i \<Rightarrow>
                   Inr (put_bucket c dateKey
                     (ts[i := (ts ! i)\<lparr>completed := True, status := ''completed'',
                                       completedDate := Some (getDateKey s)\<rparr>]) s))))"

definition uncompleteTask :: "category \<Rightarrow> int \<Rightarrow> planner \<Rightarrow> error + planner" where
  "uncompleteTask category taskId s =
     (case category of
        Pool \<Rightarrow>
          (let ts = pool (tasks s) in
           case findIndex (has_id taskId) ts of
             None \<Rightarrow> Inr s
           | Some i \<Rightarrow>
               Inr (set_pool
                 (ts[i := (ts ! i)\<lparr>completed := False, status := ''pending'',
                                   completedDate := None\<rparr>]) s))
      | Dated c \<Rightarrow>
          (let dateKey = getDateKey s in
           case bucket s c dateKey of
             None \<Rightarrow> Inl TypeError
           | Some ts \<Rightarrow>
              (case findIndex (has_id taskId) ts of
                 None \<Rightarrow> Inr s
               | Some i \<Rightarrow>
                   Inr (put_bucket c dateKey
                     (ts[i := (ts ! i)\<lparr>completed := False, status := ''pending'',
                                       completedDate := None\<rparr>]) s))))"

text \<open>
  The body shared by the two branches of \<open>toggleTaskInProgress\<close>: the status changes only
  from \<open>in-progress\<close> or \<open>pending\<close>, and \<open>completed\<close> is set to \<open>false\<close> in every case.
\<close>

definition toggle :: "task \<Rightarrow> task" where
  "toggle task =
     (let task1 = (if status task = ''in-progress'' then task\<lparr>status := ''pending''\<rparr>
                   else if status task = ''pending'' then task\<lparr>status := ''in-progress''\<rparr>
                   else task)
      in task1\<lparr>completed := False\<rparr>)"

definition toggleTaskInProgress :: "category \<Rightarrow> int \<Rightarrow> planner \<Rightarrow> error + planner" where
  "toggleTaskInProgress category taskId s =
     (case category of
        Pool \<Rightarrow>
          (let ts = pool (tasks s) in
           case findIndex (has_id taskId) ts of
             None \<Rightarrow> Inr s
           | Some i \<Rightarrow> Inr (set_pool (ts[i := toggle (ts ! i)]) s))
      | Dated c \<Rightarrow>
          (let dateKey = getDateKey s in
           case bucket s c dateKey of
             None \<Rightarrow> Inl TypeError
           | Some ts \<Rightarrow>
              (case findIndex (has_id taskId) ts of
                 None \<Rightarrow> Inr s
               | Some i \<Rightarrow> Inr (put_bucket c dateKey (ts[i := toggle (ts ! i)]) s))))"

definition editTask :: "category \<Rightarrow> int \<Rightarrow> jstring \<Rightarrow> planner \<Rightarrow> error + planner" where
  "editTask category taskId newText s =
     (case category of
        Pool \<Rightarrow>
          (let ts = pool (tasks s) in
           case findIndex (has_id taskId) ts of
             None \<Rightarrow> Inr s
           | Some i \<Rightarrow>
               if trim newText \<noteq> [] then
                 Inr (set_pool (ts[i := (ts ! i)\<lparr>task_text := trim newText\<rparr>]) s)
               else Inr s)
      | Dated c \<Rightarrow>
          (let dateKey = getDateKey s in
           case bucket s c dateKey of
             None \<Rightarrow> Inl TypeError
           | Some ts \<Rightarrow>
              (case findIndex (has_id taskId) ts of
                 None \<Rightarrow> Inr s
               | Some i \<Rightarrow>
                   if trim newText \<noteq> [] then
                     Inr (put_bucket c dateKey (ts[i := (ts ! i)\<lparr>task_text := trim newText\<rparr>]) s)
                   else Inr s)))"

definition moveTaskToDate ::
    "zone \<Rightarrow> int \<Rightarrow> dated \<Rightarrow> int \<Rightarrow> int \<Rightarrow> planner \<Rightarrow> error + planner" where
  "moveTaskToDate tz now category taskId daysOffset s =
     (let dateKey = getDateKey s in
      case bucket s category dateKey of
        None \<Rightarrow> Inl TypeError
      | Some ts \<Rightarrow>
          (case findIndex (has_id taskId) ts of
             None \<Rightarrow> Inr s
           | Some taskIndex \<Rightarrow>
               let task = (ts ! taskIndex)\<lparr>moved := True\<rparr>;
                   s1 = put_bucket category dateKey (ts[taskIndex := task]) s;
                   targetDay = addDays tz (currentDate s) daysOffset;
                   targetDateKey = formatDateKey targetDay;
                   newTask = task\<lparr>task_id := now, moved := False,
                                  originalDate := originalDate task\<rparr>
               in Inr (push_task category targetDateKey newTask s1)))"

definition moveTaskBetweenCategories ::
    "int \<Rightarrow> dated \<Rightarrow> dated \<Rightarrow> int \<Rightarrow> planner \<Rightarrow> error + planner" where
  "moveTaskBetweenCategories now fromCategory toCategory taskId s =
     (let dateKey = getDateKey s in
      case bucket s fromCategory dateKey of
        None \<Rightarrow> Inl TypeError
      | Some fromTasks \<Rightarrow>
          (case findIndex (has_id taskId) fromTasks of
             None \<Rightarrow> Inr s
           | Some taskIndex \<Rightarrow>
               let task = fromTasks ! taskIndex;
                   s1 = put_bucket fromCategory dateKey (splice_out taskIndex fromTasks) s;
                   newTask = task\<lparr>task_id := now, moved := False\<rparr>
               in Inr (push_task toCategory dateKey newTask s1)))"

definition movePoolTaskToDate :: "int \<Rightarrow> dated \<Rightarrow> int \<Rightarrow> planner \<Rightarrow> error + planner" where
  "movePoolTaskToDate now targetCategory taskId s =
     (let poolTasks = pool (tasks s) in
      case findIndex (has_id taskId) poolTasks of
        None \<Rightarrow> Inr s
      | Some taskIndex \<Rightarrow>
          let task = poolTasks ! taskIndex;
              s1 = set_pool (splice_out taskIndex poolTasks) s;
              dateKey = getDateKey s;
              newTask = task\<lparr>task_id := now, originalDate := Some dateKey, moved := False\<rparr>
          in Inr (push_task targetCategory dateKey newTask s1))"

definition movePoolTaskToSpecificDate :: "int \<Rightarrow> int \<Rightarrow> int \<Rightarrow> planner \<Rightarrow> error + planner" where
  "movePoolTaskToSpecificDate now taskId targetDate s =
     (let poolTasks = pool (tasks s) in
      case findIndex (has_id taskId) poolTasks of
        None \<Rightarrow> Inr s
      | Some taskIndex \<Rightarrow>
          let task = poolTasks ! taskIndex;
              s1 = set_pool (splice_out taskIndex poolTasks) s;
              targetDateKey = formatDateKey targetDate;
              newTask = task\<lparr>task_id := now, originalDate := Some targetDateKey,
                             moved := False\<rparr>
          in Inr (push_task Personal targetDateKey newTask s1))"

definition moveTaskToPool :: "int \<Rightarrow> dated \<Rightarrow> int \<Rightarrow> planner \<Rightarrow> error + planner" where
  "moveTaskToPool now fromCategory taskId s =
     (let dateKey = getDateKey s in
      case bucket s fromCategory dateKey of
        None \<Rightarrow> Inl TypeError
      | Some fromTasks \<Rightarrow>
          (case findIndex (has_id taskId) fromTasks of
             None \<Rightarrow> Inr s
           | Some taskIndex \<Rightarrow>
               let task = fromTasks ! taskIndex;
                   s1 = put_bucket fromCategory dateKey (splice_out taskIndex fromTasks) s;
                   newTask = task\<lparr>task_id := now, originalDate := None, moved := False,
                       completed := False,
                       status := (if status task = ''completed'' then ''pending''
                                  else status task),
                       completedDate := None\<rparr>
               in Inr (set_pool (pool (tasks s1) @ [newTask]) s1)))"

definition deleteTask :: "category \<Rightarrow> int \<Rightarrow> planner \<Rightarrow> error + planner" where
  "deleteTask category taskId s =
     (case category of
        Pool \<Rightarrow>
          (let ts = pool (tasks s) in
           case findIndex (has_id taskId) ts of
             None \<Rightarrow> Inr s
           | Some taskIndex \<Rightarrow> Inr (set_pool (splice_out taskIndex ts) s))
      | Dated c \<Rightarrow>
          (let dateKey = getDateKey s in
           case bucket s c dateKey of
             None \<Rightarrow> Inl TypeError
           | Some ts \<Rightarrow>
              (case findIndex (has_id taskId) ts of
                 None \<Rightarrow> Inr s
               | Some taskIndex \<Rightarrow> Inr (put_bucket c dateKey (splice_out taskIndex ts) s))))"

text \<open>The reordering of one array, shared by the pool and the dated buckets.\<close>

definition reorder :: "int \<Rightarrow> int \<Rightarrow> bool \<Rightarrow> task list \<Rightarrow> task list option" where
  "reorder draggedTaskId targetTaskId insertBefore ts =
     (case (findIndex (has_id draggedTaskId) ts, findIndex (has_id targetTaskId) ts) of
        (Some draggedIndex, Some targetIndex) \<Rightarrow>
          if draggedIndex \<noteq> targetIndex then
            let draggedTask = ts ! draggedIndex;
                ts1 = splice_out draggedIndex ts;
                newTargetIndex = (if draggedIndex < targetIndex then targetIndex - 1
                                  else targetIndex);
                insertIndex = (if insertBefore then newTargetIndex else newTargetIndex + 1)
            in Some (splice_in insertIndex draggedTask ts1)
          else None
      | _ \<Rightarrow> None)"

definition reorderTasks :: "category \<Rightarrow> int \<Rightarrow> int \<Rightarrow> bool \<Rightarrow> planner \<Rightarrow> error + planner" where
  "reorderTasks category draggedTaskId targetTaskId insertBefore s =
     (case category of
        Pool \<Rightarrow>
          (case reorder draggedTaskId targetTaskId insertBefore (pool (tasks s)) of
             None \<Rightarrow> Inr s
           | Some ts' \<Rightarrow> Inr (set_pool ts' s))
      | Dated c \<Rightarrow>
          (let dateKey = getDateKey s in
           case bucket s c dateKey of
             None \<Rightarrow> Inl TypeError
           | Some ts \<Rightarrow>
              (case reorder draggedTaskId targetTaskId insertBefore ts of
                 None \<Rightarrow> Inr s
               | Some ts' \<Rightarrow> Inr (put_bucket c dateKey ts' s))))"

section \<open>Merging a downloaded snapshot\<close>

text \<open>
  A snapshot is the collection that \<open>JSON.parse\<close> reads from the remote document. Its
  members come in the order \<open>personal\<close>, \<open>work\<close>, \<open>pool\<close>: the order in which \<open>loadTasks\<close>
  creates them, in which a member that is missing is added later, and in which
  \<open>JSON.stringify(this.tasks)\<close> therefore writes every document that the planner
  uploads. A document without a pool behaves as one with an empty pool: the merge does
  not visit a member that is not there, and it visits no key of an empty one.

  \<open>mergeTaskData(cloudData)\<close> visits every member of the snapshot (\<open>for (const category in
  cloudData)\<close>) and every key of the member. For a dated category the keys are the dates:
  a date without a local bucket takes the cloud bucket as it is; otherwise each cloud task
  whose id no local task has is pushed, in order (\<open>localTasks\<close> grows while \<open>forEach\<close> runs,
  so a later cloud task is compared with the earlier pushes too).
\<close>

definition existsLocally :: "task list \<Rightarrow> task \<Rightarrow> bool" where
  "existsLocally localTasks cloudTask =
     list_ex (\<lambda>localTask. task_id localTask = task_id cloudTask) localTasks"

definition add_cloud_task :: "task list \<Rightarrow> task \<Rightarrow> task list" where
  "add_cloud_task localTasks cloudTask =
     (if \<not> existsLocally localTasks cloudTask then localTasks @ [cloudTask] else localTasks)"

definition merge_bucket :: "task list \<Rightarrow> task list \<Rightarrow> task list" where
  "merge_bucket localTasks cloudTasks = foldl add_cloud_task localTasks cloudTasks"

fun merge_dates :: "buckets \<Rightarrow> buckets \<Rightarrow> buckets" where
  "merge_dates localDates [] = localDates"
| "merge_dates localDates ((date, cloudTasks) # rest) =
     merge_dates
       (case map_of localDates date of
          None \<Rightarrow> AList.update date cloudTasks localDates
        | Some localTasks \<Rightarrow> AList.update date (merge_bucket localTasks cloudTasks) localDates)
       rest"

text \<open>
  For the member \<open>pool\<close> the keys are the indices \<open>0\<close>, \<open>1\<close>, ... of the cloud pool, in
  order (a planner that has no pool yet gets an empty one from the guard
  \<open>if (!this.tasks[category])\<close>). At an index where the local pool has no element,
  \<open>this.tasks.pool[i] = cloudData.pool[i]\<close> stores the cloud task; at an index where it
  has one, the local and the cloud element are taken for buckets, and
  \<open>cloudTasks.forEach\<close> on a task throws a \<open>TypeError\<close>. So an empty cloud pool changes
  nothing, an empty local pool becomes the cloud pool, and two pools that are not empty
  make the merge throw at index \<open>0\<close>, before it has written anything into the pool.
\<close>

definition merge_pool :: "task list \<Rightarrow> task list \<Rightarrow> error + task list" where
  "merge_pool localPool cloudPool =
     (if cloudPool = [] then Inr localPool
      else if localPool = [] then Inr cloudPool
      else Inl TypeError)"

text \<open>
  The merge changes \<open>this.tasks\<close> in place, so what it has merged before it throws stays
  merged. The result is the error thrown, if any, and the planner as the merge leaves it;
  \<open>saveTasks\<close> and \<open>renderTasks\<close> run only when nothing was thrown.
\<close>

definition mergeTaskData :: "collection \<Rightarrow> planner \<Rightarrow> error option \<times> planner" where
  "mergeTaskData cloudData s =
     (let s1 = s\<lparr>tasks := (tasks s)
                 \<lparr>personal := merge_dates (personal (tasks s)) (personal cloudData),
                  work := merge_dates (work (tasks s)) (work cloudData)\<rparr>\<rparr>
      in case merge_pool (pool (tasks s1)) (pool cloudData) of
           Inl e \<Rightarrow> (Some e, s1)
         | Inr p \<Rightarrow> (None, set_pool p s1))"

section \<open>Pull and sync\<close>

text \<open>
  \<open>handleDownload\<close> (the pull): without a token nothing happens; a failed download is
  reported and changes nothing; a downloaded snapshot replaces \<open>this.tasks\<close> as it is.
  \<open>handleSync\<close> merges the snapshot instead; one \<open>try\<close> block holds the download and
  the merge, so an error that the merge throws is caught like a failed download, and the
  planner goes on to the upload with what the merge has left. The download's result is
  \<open>Inl\<close> the error message or \<open>Inr\<close> the parsed snapshot.
\<close>

definition handleDownload :: "bool \<Rightarrow> string + collection \<Rightarrow> planner \<Rightarrow> planner" where
  "handleDownload hasToken download s =
     (if \<not> hasToken then s
      else case download of
             Inl message \<Rightarrow> s
           | Inr cloudData \<Rightarrow> s\<lparr>tasks := cloudData\<rparr>)"

definition handleSync :: "bool \<Rightarrow> string + collection \<Rightarrow> planner \<Rightarrow> planner" where
  "handleSync hasToken download s =
     (if \<not> hasToken then s
      else case download of
             Inl message \<Rightarrow> s
           | Inr cloudData \<Rightarrow> snd (mergeTaskData cloudData s))"

section \<open>The operations as the event handlers call them\<close>

datatype operation =
    AddTask dated jstring
  | AddPoolTask jstring
  | CompleteTask category int
  | UncompleteTask category int
  | ToggleTaskInProgress category int
  | EditTask category int jstring
  | MoveTaskToDate dated int int
  | MoveTaskBetweenCategories dated dated int
  | MovePoolTaskToDate dated int
  | MovePoolTaskToSpecificDate int int
  | MoveTaskToPool dated int
  | DeleteTask category int
  | ReorderTasks category int int bool

fun perform :: "zone \<Rightarrow> int \<Rightarrow> operation \<Rightarrow> planner \<Rightarrow> error + planner" where
  "perform tz now (AddTask c input) s = addTask now c input s"
| "perform tz now (AddPoolTask input) s = addPoolTask now input s"
| "perform tz now (CompleteTask c taskId) s = completeTask c taskId s"
| "perform tz now (UncompleteTask c taskId) s = uncompleteTask c taskId s"
| "perform tz now (ToggleTaskInProgress c taskId) s = toggleTaskInProgress c taskId s"
| "perform tz now (EditTask c taskId newText) s = editTask c taskId newText s"
| "perform tz now (MoveTaskToDate c taskId daysOffset) s = moveTaskToDate tz now c taskId daysOffset s"
| "perform tz now (MoveTaskBetweenCategories c c' taskId) s =
     moveTaskBetweenCategories now c c' taskId s"
| "perform tz now (MovePoolTaskToDate c taskId) s = movePoolTaskToDate now c taskId s"
| "perform tz now (MovePoolTaskToSpecificDate taskId targetDate) s =
     movePoolTaskToSpecificDate now taskId targetDate s"
| "perform tz now (MoveTaskToPool c taskId) s = moveTaskToPool now c taskId s"
| "perform tz now (DeleteTask c taskId) s = deleteTask c taskId s"
| "perform tz now (ReorderTasks c draggedTaskId targetTaskId insertBefore) s =
     reorderTasks c draggedTaskId targetTaskId insertBefore s"

section \<open>Properties of the collection\<close>

text \<open>
  Every task of the collection: the dated buckets of both categories, then the pool.
  \<open>old_bucket\<close> reads a bucket as the renderer does, empty when it does not exist.
\<close>

definition flat :: "buckets \<Rightarrow> task list" where
  "flat m = concat (map snd m)"

definition old_bucket :: "buckets \<Rightarrow> string \<Rightarrow> task list" where
  "old_bucket m k = (case map_of m k of None \<Rightarrow> [] | Some b \<Rightarrow> b)"

definition all_tasks :: "collection \<Rightarrow> task list" where
  "all_tasks c = flat (personal c) @ flat (work c) @ pool c"

definition task_mset :: "planner \<Rightarrow> task multiset" where
  "task_mset s = mset (all_tasks (tasks s))"

definition all_ids :: "collection \<Rightarrow> int list" where
  "all_ids c = map task_id (all_tasks c)"



definition in_sync :: "task \<Rightarrow> bool" where
  "in_sync t = (completed t = (status t = ''completed''))"

definition all_in_sync :: "collection \<Rightarrow> bool" where
  "all_in_sync c = list_all in_sync (all_tasks c)"

definition pool_task_ok :: "task \<Rightarrow> bool" where
  "pool_task_ok t = (originalDate t = None \<and> status t \<noteq> ''completed'')"

definition pool_ok :: "collection \<Rightarrow> bool" where
  "pool_ok c = list_all pool_task_ok (pool c)"





text \<open>A list of tasks without the first task that has the given id.\<close>

definition without_first :: "int \<Rightarrow> task list \<Rightarrow> task list" where
  "without_first taskId ts =
     takeWhile (\<lambda>t. task_id t \<noteq> taskId) ts @ drop 1 (dropWhile (\<lambda>t. task_id t \<noteq> taskId) ts)"


definition in_pool :: "planner \<Rightarrow> int \<Rightarrow> bool" where
  "in_pool s taskId = list_ex (has_id taskId) (pool (tasks s))"

section \<open>Example states\<close>

text \<open>
  Time zones: a fixed offset of so many minutes east of UTC, and Central European Time
  in 2024, one hour east of UTC and two from 31 March, 01:00 UTC, to 27 October, 01:00
  UTC (a local time that the clock change skips or repeats is read with the offset
  before the change).
\<close>

definition fixed_zone :: "int \<Rightarrow> zone" where
  "fixed_zone minutes =
     \<lparr>localTime = (\<lambda>t. t + minutes * 60000), utcTime = (\<lambda>l. l - minutes * 60000)\<rparr>"

definition utc :: zone where
  "utc = fixed_zone 0"


text \<open>Midnight UTC of 5 March 2024, and the planner with no task at all viewing that day.\<close>

definition march5 :: int where
  "march5 = 1709596800000"

definition fresh_planner :: planner where
  "fresh_planner = \<lparr>currentDate = march5, tasks = emptyCollection\<rparr>"

definition milk :: task where
  "milk = \<lparr>task_id = 1, task_text = js ''Buy milk'', status = ''pending'',
      completed = False, completedDate = None, moved = False,
      originalDate = Some ''2024-03-05''\<rparr>"


definition done_task :: task where
  "done_task = \<lparr>task_id = 1, task_text = js ''Buy milk'', status = ''completed'',
      completed = True, completedDate = Some ''2024-03-05'', moved = False,
      originalDate = Some ''2024-03-05''\<rparr>"

definition done_planner :: planner where
  "done_planner = \<lparr>currentDate = march5,
      tasks = \<lparr>personal = [(''2024-03-05'', [done_task])], work = [], pool = []\<rparr>\<rparr>"

definition toggled_planner :: planner where
  "toggled_planner = \<lparr>currentDate = march5,
      tasks = \<lparr>personal = [(''2024-03-05'', [done_task\<lparr>completed := False\<rparr>])],
                work = [], pool = []\<rparr>\<rparr>"

text \<open>The merge scenario of the specification.\<close>

definition task_A :: task where
  "task_A = \<lparr>task_id = 1, task_text = js ''A'', status = ''pending'', completed = False,
      completedDate = None, moved = False, originalDate = Some ''2024-01-01''\<rparr>"

definition task_A_changed :: task where
  "task_A_changed = task_A\<lparr>task_text := js ''A-changed''\<rparr>"

definition task_B :: task where
  "task_B = \<lparr>task_id = 2, task_text = js ''B'', status = ''pending'', completed = False,
      completedDate = None, moved = False, originalDate = Some ''2024-01-01''\<rparr>"

definition scenario_local :: planner where
  "scenario_local = \<lparr>currentDate = march5,
      tasks = \<lparr>personal = [(''2024-01-01'', [task_A])], work = [], pool = []\<rparr>\<rparr>"

definition scenario_cloud :: collection where
  "scenario_cloud =
     \<lparr>personal = [(''2024-01-01'', [task_A_changed, task_B])], work = [], pool = []\<rparr>"



text \<open>A planner with a task in the viewed personal bucket and a task in the pool.\<close>

definition someday :: task where
  "someday = \<lparr>task_id = 3, task_text = js ''Learn to sail'', status = ''in-progress'',
      completed = False, completedDate = None, moved = False, originalDate = None\<rparr>"

definition busy_planner :: planner where
  "busy_planner = \<lparr>currentDate = march5,
      tasks = \<lparr>personal = [(''2024-03-05'', [milk])], work = [], pool = [someday]\<rparr>\<rparr>"

text \<open>
  A snapshot whose pool holds a completed task with an original date, and the planner
  after the completed task of \<open>done_planner\<close> was moved to the pool at the clock reading 9.
\<close>

definition done_cloud :: collection where
  "done_cloud = \<lparr>personal = [], work = [], pool = [done_task]\<rparr>"

definition pooled_planner :: planner where
  "pooled_planner = \<lparr>currentDate = march5,
      tasks = \<lparr>personal = [(''2024-03-05'', [])], work = [],
                pool = [\<lparr>task_id = 9, task_text = js ''Buy milk'', status = ''pending'',
                         completed = False, completedDate = None, moved = False,
                         originalDate = None\<rparr>]\<rparr>\<rparr>"


definition bread :: task where
  "bread = \<lparr>task_id = 2, task_text = js ''Buy bread'', status = ''pending'',
      completed = False, completedDate = None, moved = False,
      originalDate = Some ''2024-03-05''\<rparr>"

definition yesterday_planner :: planner where
  "yesterday_planner = \<lparr>currentDate = march5,
      tasks = \<lparr>personal = [(''2024-03-04'', [milk]), (''2024-03-05'', [bread])],
                work = [], pool = []\<rparr>\<rparr>"




section \<open>Auxiliary notions for the merge\<close>

text \<open>A local set of buckets covers a cloud bucket: the date is present with all the ids
  of the cloud bucket.\<close>

definition covers :: "buckets \<Rightarrow> string \<Rightarrow> task list \<Rightarrow> bool" where
  "covers l d ct = (case map_of l d of None \<Rightarrow> False
      | Some lt \<Rightarrow> task_id ` set ct \<subseteq> task_id ` set lt)"


section \<open>The shapes of the operations\<close>

text \<open>
  The operations on one task follow three shapes, which the proofs use: a task found in
  the viewed bucket or in the pool is changed in place by \<open>f\<close>; or it is spliced out, and
  \<open>g\<close> finishes the operation on the spliced-out task and the remaining planner.
\<close>

definition modify_viewed ::
    "dated \<Rightarrow> int \<Rightarrow> (task \<Rightarrow> task) \<Rightarrow> planner \<Rightarrow> error + planner" where
  "modify_viewed c taskId f s =
     (case bucket s c (getDateKey s) of
        None \<Rightarrow> Inl TypeError
      | Some ts \<Rightarrow>
          (case findIndex (has_id taskId) ts of
             None \<Rightarrow> Inr s
           | Some i \<Rightarrow> Inr (put_bucket c (getDateKey s) (ts[i := f (ts ! i)]) s)))"

definition modify_pool :: "int \<Rightarrow> (task \<Rightarrow> task) \<Rightarrow> planner \<Rightarrow> error + planner" where
  "modify_pool taskId f s =
     (case findIndex (has_id taskId) (pool (tasks s)) of
        None \<Rightarrow> Inr s
      | Some i \<Rightarrow> Inr (set_pool ((pool (tasks s))[i := f (pool (tasks s) ! i)]) s))"

definition take_viewed ::
    "dated \<Rightarrow> int \<Rightarrow> (task \<Rightarrow> planner \<Rightarrow> planner) \<Rightarrow> planner \<Rightarrow> error + planner" where
  "take_viewed c taskId g s =
     (case bucket s c (getDateKey s) of
        None \<Rightarrow> Inl TypeError
      | Some ts \<Rightarrow>
          (case findIndex (has_id taskId) ts of
             None \<Rightarrow> Inr s
           | Some i \<Rightarrow> Inr (g (ts ! i) (put_bucket c (getDateKey s) (splice_out i ts) s))))"

definition take_pool ::
    "int \<Rightarrow> (task \<Rightarrow> planner \<Rightarrow> planner) \<Rightarrow> planner \<Rightarrow> error + planner" where
  "take_pool taskId g s =
     (case findIndex (has_id taskId) (pool (tasks s)) of
        None \<Rightarrow> Inr s
      | Some i \<Rightarrow>
          Inr (g (pool (tasks s) ! i) (set_pool (splice_out i (pool (tasks s))) s)))"

section \<open>Lists, association lists and the planner's stores\<close>

subsection \<open>findIndex and splicing\<close>

lemma findIndex_None_iff: "findIndex P xs = None \<longleftrightarrow> (\<forall>x \<in> set xs. \<not> P x)"
  by (induction xs) auto

lemma findIndex_Some_lt: "findIndex P xs = Some i \<Longrightarrow> i < length xs"
  by (induction xs arbitrary: i) (auto split: if_splits)


lemma findIndex_Some_first: "findIndex P xs = Some i \<Longrightarrow> j < i \<Longrightarrow> \<not> P (xs ! j)"
proof (induction xs arbitrary: i j)
  case Nil
  then show ?case by simp
next
  case (Cons x xs)
  then show ?case by (cases j) (auto split: if_splits)
qed

lemma findIndex_takeWhile:
  "findIndex P xs = Some i \<Longrightarrow> take i xs = takeWhile (\<lambda>x. \<not> P x) xs"
  by (induction xs arbitrary: i) (auto split: if_splits)

lemma findIndex_dropWhile:
  "findIndex P xs = Some i \<Longrightarrow> drop i xs = dropWhile (\<lambda>x. \<not> P x) xs"
  by (induction xs arbitrary: i) (auto split: if_splits)

lemma mset_splice_out:
  "i < length xs \<Longrightarrow> add_mset (xs ! i) (mset (splice_out i xs)) = mset xs"
proof -
  assume i: "i < length xs"
  then have "xs = take i xs @ (xs ! i) # drop (Suc i) xs"
    by (rule id_take_nth_drop)
  then have "mset xs = mset (take i xs @ (xs ! i) # drop (Suc i) xs)" by simp
  then show ?thesis by (simp add: splice_out_def)
qed

lemma set_splice_out: "set (splice_out i xs) \<subseteq> set xs"
  by (auto simp: splice_out_def dest: in_set_takeD in_set_dropD)

lemma mset_splice_in: "mset (splice_in i x xs) = add_mset x (mset xs)"
proof -
  have "mset (take i xs) + mset (drop i xs) = mset (take i xs @ drop i xs)"
    by (rule mset_append [symmetric])
  also have "\<dots> = mset xs" by simp
  finally show ?thesis by (simp add: splice_in_def)
qed

lemma mset_list_update:
  "i < length xs \<Longrightarrow> add_mset (xs ! i) (mset (xs[i := y])) = add_mset y (mset xs)"
  by (simp add: mset_update add_mset_commute)

subsection \<open>Association lists of buckets\<close>

lemma mset_flat_update:
  "mset (flat (AList.update k v m)) + mset (old_bucket m k) = mset (flat m) + mset v"
  by (induction m) (auto simp: flat_def old_bucket_def)

lemma map_of_update_bucket:
  "map_of (AList.update k v m) k' = (if k' = k then Some v else map_of m k')"
  by (simp add: update_conv')

subsection \<open>Reading after writing\<close>

lemma buckets_of_set_buckets:
  "buckets_of (set_buckets c b col) c' = (if c' = c then b else buckets_of col c')"
  by (cases c; cases c') (simp_all add: buckets_of_def set_buckets_def)

lemma pool_set_buckets [simp]: "pool (set_buckets c b col) = pool col"
  by (cases c) (simp_all add: set_buckets_def)

lemma bucket_put_bucket:
  "bucket (put_bucket c k v s) c' k' =
     (if c' = c \<and> k' = k then Some v else bucket s c' k')"
  by (simp add: bucket_def put_bucket_def buckets_of_set_buckets map_of_update_bucket)

lemma pool_put_bucket [simp]: "pool (tasks (put_bucket c k v s)) = pool (tasks s)"
  by (simp add: put_bucket_def)

lemma currentDate_put_bucket [simp]: "currentDate (put_bucket c k v s) = currentDate s"
  by (simp add: put_bucket_def)

lemma getDateKey_put_bucket [simp]: "getDateKey (put_bucket c k v s) = getDateKey s"
  by (simp add: getDateKey_def)


lemma pool_push_task [simp]: "pool (tasks (push_task c k t s)) = pool (tasks s)"
  by (simp add: push_task_def)

lemma currentDate_push_task [simp]: "currentDate (push_task c k t s) = currentDate s"
  by (simp add: push_task_def)

lemma bucket_set_pool [simp]: "bucket (set_pool p s) c k = bucket s c k"
  by (simp add: bucket_def set_pool_def buckets_of_def split: dated.splits)

lemma pool_set_pool [simp]: "pool (tasks (set_pool p s)) = p"
  by (simp add: set_pool_def)

lemma currentDate_set_pool [simp]: "currentDate (set_pool p s) = currentDate s"
  by (simp add: set_pool_def)

lemma getDateKey_set_pool [simp]: "getDateKey (set_pool p s) = getDateKey s"
  by (simp add: getDateKey_def)

subsection \<open>The multiset of all tasks after a write\<close>

lemma task_mset_put_bucket:
  "task_mset (put_bucket c k v s) + mset (old_bucket (buckets_of (tasks s) c) k)
     = task_mset s + mset v"
proof (cases c)
  case Personal
  have "mset (flat (AList.update k v (personal (tasks s)))) + mset (old_bucket (personal (tasks s)) k)
      = mset (flat (personal (tasks s))) + mset v"
    by (rule mset_flat_update)
  then have "mset (flat (AList.update k v (personal (tasks s)))) + mset (old_bucket (personal (tasks s)) k)
       + (mset (flat (work (tasks s))) + mset (pool (tasks s)))
      = mset (flat (personal (tasks s))) + mset v
       + (mset (flat (work (tasks s))) + mset (pool (tasks s)))"
    by simp
  with Personal show ?thesis
    by (simp add: task_mset_def all_tasks_def put_bucket_def set_buckets_def buckets_of_def
        ac_simps)
next
  case Work
  have "mset (flat (AList.update k v (work (tasks s)))) + mset (old_bucket (work (tasks s)) k)
      = mset (flat (work (tasks s))) + mset v"
    by (rule mset_flat_update)
  then have "mset (flat (AList.update k v (work (tasks s)))) + mset (old_bucket (work (tasks s)) k)
       + (mset (flat (personal (tasks s))) + mset (pool (tasks s)))
      = mset (flat (work (tasks s))) + mset v
       + (mset (flat (personal (tasks s))) + mset (pool (tasks s)))"
    by simp
  with Work show ?thesis
    by (simp add: task_mset_def all_tasks_def put_bucket_def set_buckets_def buckets_of_def
        ac_simps)
qed

lemma task_mset_put_existing:
  "bucket s c k = Some b \<Longrightarrow> task_mset (put_bucket c k v s) + mset b = task_mset s + mset v"
  using task_mset_put_bucket [of c k v s] by (simp add: bucket_def old_bucket_def)

lemma task_mset_push_task: "task_mset (push_task c k t s) = add_mset t (task_mset s)"
proof -
  let ?old = "old_bucket (buckets_of (tasks s) c) k"
  have "task_mset (push_task c k t s) + mset ?old = task_mset s + mset (?old @ [t])"
    using task_mset_put_bucket [of c k "?old @ [t]" s]
    by (simp add: push_task_def old_bucket_def bucket_def)
  then have "task_mset (push_task c k t s) + mset ?old = add_mset t (task_mset s) + mset ?old"
    by simp
  then show ?thesis by (simp only: add_right_cancel)
qed

lemma task_mset_set_pool:
  "task_mset (set_pool p s) + mset (pool (tasks s)) = task_mset s + mset p"
  by (simp add: task_mset_def all_tasks_def set_pool_def ac_simps)

subsection \<open>The multiset of all tasks after changing one bucket\<close>



lemma task_mset_update_bucket:
  assumes "bucket s c k = Some ts" and "j < length ts"
  shows "add_mset (ts ! j) (task_mset (put_bucket c k (ts[j := t']) s)) = add_mset t' (task_mset s)"
proof -
  have "task_mset (put_bucket c k (ts[j := t']) s) + mset ts = task_mset s + mset (ts[j := t'])"
    using assms(1) by (rule task_mset_put_existing)
  then have "add_mset (ts ! j) (task_mset (put_bucket c k (ts[j := t']) s)) + mset ts
      = task_mset s + add_mset (ts ! j) (mset (ts[j := t']))"
    by simp
  also have "\<dots> = add_mset t' (task_mset s) + mset ts"
    using assms(2) by (simp add: mset_list_update)
  finally show ?thesis by (simp only: add_right_cancel)
qed

lemma task_mset_remove_bucket:
  assumes "bucket s c k = Some ts" and "j < length ts"
  shows "add_mset (ts ! j) (task_mset (put_bucket c k (splice_out j ts) s)) = task_mset s"
proof -
  have "task_mset (put_bucket c k (splice_out j ts) s) + mset ts
      = task_mset s + mset (splice_out j ts)"
    using assms(1) by (rule task_mset_put_existing)
  then have "add_mset (ts ! j) (task_mset (put_bucket c k (splice_out j ts) s)) + mset ts
      = task_mset s + add_mset (ts ! j) (mset (splice_out j ts))"
    by simp
  also have "\<dots> = task_mset s + mset ts"
    using assms(2) by (simp add: mset_splice_out)
  finally show ?thesis by (simp only: add_right_cancel)
qed

lemma task_mset_update_pool:
  assumes "j < length (pool (tasks s))"
  shows "add_mset (pool (tasks s) ! j) (task_mset (set_pool ((pool (tasks s))[j := t']) s))
     = add_mset t' (task_mset s)"
proof -
  let ?p = "pool (tasks s)"
  have "task_mset (set_pool (?p[j := t']) s) + mset ?p = task_mset s + mset (?p[j := t'])"
    by (rule task_mset_set_pool)
  then have "add_mset (?p ! j) (task_mset (set_pool (?p[j := t']) s)) + mset ?p
      = task_mset s + add_mset (?p ! j) (mset (?p[j := t']))"
    by simp
  also have "\<dots> = add_mset t' (task_mset s) + mset ?p"
    using assms by (simp add: mset_list_update)
  finally show ?thesis by (simp only: add_right_cancel)
qed

lemma task_mset_remove_pool:
  assumes "j < length (pool (tasks s))"
  shows "add_mset (pool (tasks s) ! j) (task_mset (set_pool (splice_out j (pool (tasks s))) s))
     = task_mset s"
proof -
  let ?p = "pool (tasks s)"
  have "task_mset (set_pool (splice_out j ?p) s) + mset ?p = task_mset s + mset (splice_out j ?p)"
    by (rule task_mset_set_pool)
  then have "add_mset (?p ! j) (task_mset (set_pool (splice_out j ?p) s)) + mset ?p
      = task_mset s + add_mset (?p ! j) (mset (splice_out j ?p))"
    by simp
  also have "\<dots> = task_mset s + mset ?p"
    using assms by (simp add: mset_splice_out)
  finally show ?thesis by (simp only: add_right_cancel)
qed

lemma task_mset_append_pool:
  "task_mset (set_pool (pool (tasks s) @ [t]) s) = add_mset t (task_mset s)"
proof -
  have "task_mset (set_pool (pool (tasks s) @ [t]) s) + mset (pool (tasks s))
      = task_mset s + mset (pool (tasks s) @ [t])"
    by (rule task_mset_set_pool)
  then have "task_mset (set_pool (pool (tasks s) @ [t]) s) + mset (pool (tasks s))
      = add_mset t (task_mset s) + mset (pool (tasks s))"
    by simp
  then show ?thesis by (simp only: add_right_cancel)
qed

lemma task_mset_same_bucket:
  assumes "bucket s c k = Some ts" and "mset ts' = mset ts"
  shows "task_mset (put_bucket c k ts' s) = task_mset s"
proof -
  have "task_mset (put_bucket c k ts' s) + mset ts = task_mset s + mset ts'"
    using assms(1) by (rule task_mset_put_existing)
  with assms(2) show ?thesis by simp
qed

lemma task_mset_same_pool:
  assumes "mset p' = mset (pool (tasks s))"
  shows "task_mset (set_pool p' s) = task_mset s"
  using task_mset_set_pool [of p' s] assms by simp

subsection \<open>Every operation on one task is an instance of a shape\<close>

lemma completeTask_shape:
  "completeTask (Dated c) i s =
     modify_viewed c i (\<lambda>t. t\<lparr>completed := True, status := ''completed'',
        completedDate := Some (getDateKey s)\<rparr>) s"
  by (simp add: completeTask_def modify_viewed_def Let_def split: option.splits)

lemma completePoolTask_shape:
  "completeTask Pool i s =
     take_pool i (\<lambda>t. push_task Personal (getDateKey s)
       (t\<lparr>completed := True, status := ''completed'', completedDate := Some (getDateKey s),
          originalDate := Some (getDateKey s), moved := False\<rparr>)) s"
  by (simp add: completeTask_def completePoolTask_def take_pool_def Let_def split: option.splits)

lemma uncompleteTask_shape:
  "uncompleteTask (Dated c) i s =
     modify_viewed c i (\<lambda>t. t\<lparr>completed := False, status := ''pending'',
        completedDate := None\<rparr>) s"
  "uncompleteTask Pool i s =
     modify_pool i (\<lambda>t. t\<lparr>completed := False, status := ''pending'',
        completedDate := None\<rparr>) s"
  by (simp_all add: uncompleteTask_def modify_viewed_def modify_pool_def Let_def split: option.splits)

lemma toggleTaskInProgress_shape:
  "toggleTaskInProgress (Dated c) i s = modify_viewed c i toggle s"
  "toggleTaskInProgress Pool i s = modify_pool i toggle s"
  by (simp_all add: toggleTaskInProgress_def modify_viewed_def modify_pool_def Let_def split: option.splits)

lemma editTask_shape:
  "trim newText \<noteq> [] \<Longrightarrow>
   editTask (Dated c) i newText s = modify_viewed c i (\<lambda>t. t\<lparr>task_text := trim newText\<rparr>) s"
  "trim newText \<noteq> [] \<Longrightarrow>
   editTask Pool i newText s = modify_pool i (\<lambda>t. t\<lparr>task_text := trim newText\<rparr>) s"
  by (simp_all add: editTask_def modify_viewed_def modify_pool_def Let_def split: option.splits)

lemma editTask_empty:
  "trim newText = [] \<Longrightarrow> editTask c i newText s = Inr s' \<Longrightarrow> s' = s"
  by (cases c) (auto simp: editTask_def Let_def split: option.splits)

lemma moveTaskBetweenCategories_shape:
  "moveTaskBetweenCategories now c c' i s =
     take_viewed c i (\<lambda>t. push_task c' (getDateKey s) (t\<lparr>task_id := now, moved := False\<rparr>)) s"
  by (simp add: moveTaskBetweenCategories_def take_viewed_def Let_def split: option.splits)

lemma moveTaskToPool_shape:
  "moveTaskToPool now c i s =
     take_viewed c i (\<lambda>t s1. set_pool (pool (tasks s1) @
       [t\<lparr>task_id := now, originalDate := None, moved := False, completed := False,
          status := (if status t = ''completed'' then ''pending'' else status t),
          completedDate := None\<rparr>]) s1) s"
  by (simp add: moveTaskToPool_def take_viewed_def Let_def split: option.splits)

lemma movePoolTaskToDate_shape:
  "movePoolTaskToDate now c i s =
     take_pool i (\<lambda>t. push_task c (getDateKey s)
       (t\<lparr>task_id := now, originalDate := Some (getDateKey s), moved := False\<rparr>)) s"
  by (simp add: movePoolTaskToDate_def take_pool_def Let_def split: option.splits)

lemma movePoolTaskToSpecificDate_shape:
  "movePoolTaskToSpecificDate now i targetDate s =
     take_pool i (\<lambda>t. push_task Personal (formatDateKey targetDate)
       (t\<lparr>task_id := now, originalDate := Some (formatDateKey targetDate), moved := False\<rparr>)) s"
  by (simp add: movePoolTaskToSpecificDate_def take_pool_def Let_def split: option.splits)

lemma deleteTask_shape:
  "deleteTask (Dated c) i s = take_viewed c i (\<lambda>t s1. s1) s"
  "deleteTask Pool i s = take_pool i (\<lambda>t s1. s1) s"
  by (simp_all add: deleteTask_def take_viewed_def take_pool_def Let_def split: option.splits)

subsection \<open>The effect of each shape on the multiset of tasks\<close>






subsection \<open>The effect of every operation\<close>

lemma reorder_mset: "reorder d t b ts = Some ts' \<Longrightarrow> mset ts' = mset ts"
proof -
  assume r: "reorder d t b ts = Some ts'"
  then obtain di ti where di: "findIndex (has_id d) ts = Some di"
    and ti: "findIndex (has_id t) ts = Some ti"
    by (auto simp: reorder_def split: option.splits)
  from r di ti obtain k where "ts' = splice_in k (ts ! di) (splice_out di ts)"
    by (auto simp: reorder_def Let_def split: if_splits)
  then show ?thesis
    using findIndex_Some_lt [OF di] by (simp add: mset_splice_in mset_splice_out)
qed

lemma reorderTasks_mset: "reorderTasks c d t b s = Inr s' \<Longrightarrow> task_mset s' = task_mset s"
proof (cases c)
  case Pool
  assume "reorderTasks c d t b s = Inr s'"
  with Pool show ?thesis
    by (auto simp: reorderTasks_def task_mset_same_pool reorder_mset split: option.splits)
next
  case (Dated x)
  assume "reorderTasks c d t b s = Inr s'"
  with Dated show ?thesis
    by (auto simp: reorderTasks_def Let_def task_mset_same_bucket reorder_mset
        split: option.splits)
qed





text \<open>
  The date move, when the task is found: the origin becomes the stub and the copy is
  one more task.
\<close>

lemma moveTaskToDate_found:
  assumes "bucket s c (getDateKey s) = Some ts" and "findIndex (has_id i) ts = Some j"
  shows "moveTaskToDate tz now c i daysOffset s =
     Inr (push_task c (formatDateKey (addDays tz (currentDate s) daysOffset))
            ((ts ! j)\<lparr>task_id := now, moved := False\<rparr>)
            (put_bucket c (getDateKey s) (ts[j := (ts ! j)\<lparr>moved := True\<rparr>]) s))"
  using assms by (simp add: moveTaskToDate_def Let_def)

lemma moveTaskToDate_mset:
  assumes "bucket s c (getDateKey s) = Some ts" and "findIndex (has_id i) ts = Some j"
    and "moveTaskToDate tz now c i daysOffset s = Inr s'"
  shows "add_mset (ts ! j) (task_mset s') =
     add_mset ((ts ! j)\<lparr>task_id := now, moved := False\<rparr>)
       (add_mset ((ts ! j)\<lparr>moved := True\<rparr>) (task_mset s))"
proof -
  let ?s1 = "put_bucket c (getDateKey s) (ts[j := (ts ! j)\<lparr>moved := True\<rparr>]) s"
  have "add_mset (ts ! j) (task_mset ?s1) = add_mset ((ts ! j)\<lparr>moved := True\<rparr>) (task_mset s)"
    using assms(1) findIndex_Some_lt [OF assms(2)] by (rule task_mset_update_bucket)
  moreover have "task_mset s' = add_mset ((ts ! j)\<lparr>task_id := now, moved := False\<rparr>) (task_mset ?s1)"
    using assms(3) unfolding moveTaskToDate_found [OF assms(1,2)]
    by (auto simp: task_mset_push_task)
  ultimately show ?thesis by (simp add: add_mset_commute)
qed


lemma push_or_same:
  "task_id t' = now \<or> task_id t' = task_id t \<Longrightarrow>
   task_mset (push_task c k t' s1) = task_mset s1
     \<or> (\<exists>u. task_mset (push_task c k t' s1) = add_mset u (task_mset s1)
           \<and> (task_id u = now \<or> task_id u = task_id t))"
  by (auto simp: task_mset_push_task)


subsection \<open>Distinct ids\<close>





section \<open>The merge\<close>

lemma existsLocally_iff: "existsLocally lt t \<longleftrightarrow> task_id t \<in> task_id ` set lt"
  unfolding existsLocally_def list_ex_iff image_iff by (rule bex_cong) auto

lemma merge_bucket_Nil [simp]: "merge_bucket lt [] = lt"
  by (simp add: merge_bucket_def)

lemma merge_bucket_Cons [simp]:
  "merge_bucket lt (c # cs) = merge_bucket (add_cloud_task lt c) cs"
  by (simp add: merge_bucket_def)

lemma merge_bucket_extends:
  "\<exists>extra. merge_bucket lt ct = lt @ extra \<and> set extra \<subseteq> set ct
     \<and> list_all (\<lambda>t. \<not> existsLocally lt t) extra"
proof (induction ct arbitrary: lt)
  case Nil
  show ?case by simp
next
  case (Cons c cs)
  show ?case
  proof (cases "existsLocally lt c")
    case True
    from Cons.IH [of lt] obtain extra where
      "merge_bucket lt cs = lt @ extra" "set extra \<subseteq> set cs"
      "list_all (\<lambda>t. \<not> existsLocally lt t) extra" by blast
    with True show ?thesis by (auto simp: add_cloud_task_def)
  next
    case False
    from Cons.IH [of "lt @ [c]"] obtain extra where e:
      "merge_bucket (lt @ [c]) cs = (lt @ [c]) @ extra" "set extra \<subseteq> set cs"
      "list_all (\<lambda>t. \<not> existsLocally (lt @ [c]) t) extra" by blast
    from e(3) have "list_all (\<lambda>t. \<not> existsLocally lt t) extra"
      by (auto simp: list_all_iff existsLocally_iff)
    with False e(1,2) have
      "merge_bucket lt (c # cs) = lt @ (c # extra) \<and> set (c # extra) \<subseteq> set (c # cs)
        \<and> list_all (\<lambda>t. \<not> existsLocally lt t) (c # extra)"
      by (auto simp: add_cloud_task_def)
    then show ?thesis by blast
  qed
qed

lemma merge_bucket_ids:
  "task_id ` set (merge_bucket lt ct) = task_id ` set lt \<union> task_id ` set ct"
proof (induction ct arbitrary: lt)
  case Nil
  show ?case by simp
next
  case (Cons c cs)
  show ?case
    by (auto simp: Cons.IH add_cloud_task_def existsLocally_iff)
qed

lemma merge_bucket_covered:
  "task_id ` set ct \<subseteq> task_id ` set lt \<Longrightarrow> merge_bucket lt ct = lt"
  by (induction ct arbitrary: lt) (auto simp: add_cloud_task_def existsLocally_iff)

lemma merge_dates_extends:
  "map_of l d = Some lt \<Longrightarrow>
   \<exists>extra. map_of (merge_dates l r) d = Some (lt @ extra)
     \<and> list_all (\<lambda>t. \<not> existsLocally lt t) extra"
proof (induction r arbitrary: l lt)
  case Nil
  then show ?case by simp
next
  case (Cons p r)
  obtain date ct where p: "p = (date, ct)" by (cases p)
  show ?case
  proof (cases "date = d")
    case True
    obtain e1 where e1: "merge_bucket lt ct = lt @ e1"
      "list_all (\<lambda>t. \<not> existsLocally lt t) e1"
      using merge_bucket_extends [of lt ct] by blast
    let ?l1 = "AList.update d (lt @ e1) l"
    have "map_of ?l1 d = Some (lt @ e1)" by (simp add: update_conv')
    from Cons.IH [OF this] obtain e2 where e2:
      "map_of (merge_dates ?l1 r) d = Some ((lt @ e1) @ e2)"
      "list_all (\<lambda>t. \<not> existsLocally (lt @ e1) t) e2" by blast
    from e2(2) have "list_all (\<lambda>t. \<not> existsLocally lt t) e2"
      by (auto simp: list_all_iff existsLocally_iff)
    with e1 e2(1) True p Cons.prems have
      "map_of (merge_dates l (p # r)) d = Some (lt @ (e1 @ e2))
        \<and> list_all (\<lambda>t. \<not> existsLocally lt t) (e1 @ e2)"
      by simp
    then show ?thesis by blast
  next
    case False
    let ?l1 = "case map_of l date of None \<Rightarrow> AList.update date ct l
                | Some localTasks \<Rightarrow> AList.update date (merge_bucket localTasks ct) l"
    from False Cons.prems have "map_of ?l1 d = Some lt"
      by (simp add: update_conv' split: option.splits)
    from Cons.IH [OF this] p show ?thesis by simp
  qed
qed

lemma covers_step:
  "covers l d ct \<Longrightarrow>
   covers (case map_of l date of None \<Rightarrow> AList.update date ct' l
      | Some localTasks \<Rightarrow> AList.update date (merge_bucket localTasks ct') l) d ct"
  by (auto simp: covers_def update_conv' merge_bucket_ids split: option.splits)

lemma covers_merge_dates: "covers l d ct \<Longrightarrow> covers (merge_dates l r) d ct"
proof (induction r arbitrary: l)
  case Nil
  then show ?case by simp
next
  case (Cons p r)
  obtain date ct' where p: "p = (date, ct')" by (cases p)
  from Cons.IH [OF covers_step [OF Cons.prems]] p show ?case by simp
qed

lemma covers_after_step:
  "covers (case map_of l date of None \<Rightarrow> AList.update date ct l
      | Some localTasks \<Rightarrow> AList.update date (merge_bucket localTasks ct) l) date ct"
  by (auto simp: covers_def update_conv' merge_bucket_ids split: option.splits)

lemma merge_dates_covers_all:
  "(d, ct) \<in> set r \<Longrightarrow> covers (merge_dates l r) d ct"
proof (induction r arbitrary: l)
  case Nil
  then show ?case by simp
next
  case (Cons p r)
  obtain date ct' where p: "p = (date, ct')" by (cases p)
  show ?case
  proof (cases "(d, ct) = p")
    case True
    with p have "date = d" "ct' = ct" by auto
    with p covers_merge_dates [OF covers_after_step [where l = l and date = d and ct = ct], of r] show ?thesis by simp
  next
    case False
    with Cons.prems have "(d, ct) \<in> set r" by auto
    from Cons.IH [OF this] p show ?thesis by simp
  qed
qed

lemma merge_dates_fixed:
  "(\<And>d ct. (d, ct) \<in> set r \<Longrightarrow> covers l d ct) \<Longrightarrow> merge_dates l r = l"
proof (induction r)
  case Nil
  show ?case by simp
next
  case (Cons p r)
  obtain date ct where p: "p = (date, ct)" by (cases p)
  have "covers l date ct" using Cons.prems [of date ct] p by simp
  then obtain lt where lt: "map_of l date = Some lt" "task_id ` set ct \<subseteq> task_id ` set lt"
    by (auto simp: covers_def split: option.splits)
  have "AList.update date (merge_bucket lt ct) l = l"
    using lt by (simp add: merge_bucket_covered update_triv)
  moreover have "merge_dates l r = l" using Cons.IH Cons.prems by simp
  ultimately show ?case using p lt by simp
qed

lemma merge_dates_idem: "merge_dates (merge_dates l r) r = merge_dates l r"
  by (rule merge_dates_fixed) (rule merge_dates_covers_all)

lemma bucket_mergeTaskData:
  "bucket (snd (mergeTaskData cloudData s)) c d
     = map_of (merge_dates (buckets_of (tasks s) c) (buckets_of cloudData c)) d"
  by (cases c)
    (simp_all add: bucket_def mergeTaskData_def buckets_of_def set_pool_def Let_def
      split: sum.splits)

lemma pool_mergeTaskData:
  "pool (tasks (snd (mergeTaskData cloudData s)))
     = (if pool (tasks s) = [] then pool cloudData else pool (tasks s))"
  by (simp add: mergeTaskData_def merge_pool_def set_pool_def Let_def)

lemma dated_mergeTaskData:
  "buckets_of (tasks (snd (mergeTaskData cloudData s))) c
     = merge_dates (buckets_of (tasks s) c) (buckets_of cloudData c)"
  by (cases c)
    (simp_all add: mergeTaskData_def buckets_of_def set_pool_def Let_def split: sum.splits)

lemma currentDate_mergeTaskData:
  "currentDate (snd (mergeTaskData cloudData s)) = currentDate s"
  by (simp add: mergeTaskData_def set_pool_def Let_def split: sum.splits)

lemma planner_eqI:
  assumes "currentDate s = currentDate s'"
    and "personal (tasks s) = personal (tasks s')"
    and "work (tasks s) = work (tasks s')"
    and "pool (tasks s) = pool (tasks s')"
  shows "s = (s' :: planner)"
proof -
  from assms(2-4) have "tasks s = tasks s'" by simp
  with assms(1) show ?thesis by simp
qed

text \<open>
  C4. Merging never removes a local task and never changes one: every local bucket is
  a prefix of the merged bucket, and what is appended are tasks whose ids the local
  bucket did not have; a local pool that holds tasks stays as it is, and an empty one
  takes the tasks of the snapshot's pool. This is so also when the merge throws on the
  pool. In the scenario of the specification the merged bucket is the local task A,
  unchanged, followed by the cloud task B.
\<close>

theorem mergeTaskData_keeps_local:
  "(bucket s c d = Some localTasks \<longrightarrow>
      (\<exists>extra. bucket (snd (mergeTaskData cloudData s)) c d = Some (localTasks @ extra)
         \<and> list_all (\<lambda>t. \<not> existsLocally localTasks t) extra))
   \<and> pool (tasks (snd (mergeTaskData cloudData s)))
       = (if pool (tasks s) = [] then pool cloudData else pool (tasks s))
   \<and> bucket (snd (mergeTaskData scenario_cloud scenario_local)) Personal ''2024-01-01''
       = Some [task_A, task_B]
   \<and> task_text task_A = js ''A''"
proof -
  have general: "bucket s c d = Some localTasks \<longrightarrow>
      (\<exists>extra. bucket (snd (mergeTaskData cloudData s)) c d = Some (localTasks @ extra)
         \<and> list_all (\<lambda>t. \<not> existsLocally localTasks t) extra)"
  proof
    assume "bucket s c d = Some localTasks"
    then have "map_of (buckets_of (tasks s) c) d = Some localTasks"
      by (simp add: bucket_def)
    from merge_dates_extends [OF this, of "buckets_of cloudData c"]
    show "\<exists>extra. bucket (snd (mergeTaskData cloudData s)) c d = Some (localTasks @ extra)
         \<and> list_all (\<lambda>t. \<not> existsLocally localTasks t) extra"
      by (simp only: bucket_mergeTaskData)
  qed
  have local_pool: "pool (tasks (snd (mergeTaskData cloudData s)))
       = (if pool (tasks s) = [] then pool cloudData else pool (tasks s))"
    by (rule pool_mergeTaskData)
  have scenario:
    "bucket (snd (mergeTaskData scenario_cloud scenario_local)) Personal ''2024-01-01''
       = Some [task_A, task_B]"
    by code_simp
  have "task_text task_A = js ''A''"
    by (simp add: task_A_def)
  with general local_pool scenario show ?thesis by blast
qed

theorem mergeTaskData_keeps_local_witness:
  "bucket scenario_local Personal ''2024-01-01'' = Some [task_A]
   \<and> (\<exists>extra. bucket (snd (mergeTaskData scenario_cloud scenario_local)) Personal ''2024-01-01''
          = Some ([task_A] @ extra)
        \<and> list_all (\<lambda>t. \<not> existsLocally [task_A] t) extra)"
proof -
  have h: "bucket scenario_local Personal ''2024-01-01'' = Some [task_A]"
    by code_simp
  with mergeTaskData_keeps_local
    [of scenario_local Personal "''2024-01-01''" "[task_A]" scenario_cloud]
  show ?thesis by blast
qed

text \<open>
  C9. Merging the same snapshot a second time leaves the planner as the first merge left
  it: after the first merge every bucket of the snapshot is present locally with all its
  ids, and the pool either was taken over by the first merge or is not written at all.
  (When the snapshot's pool holds tasks the second merge ends with the \<open>TypeError\<close> of
  the pool, after it has gone through the dated categories; the planner is the same.)
\<close>

theorem mergeTaskData_idempotent:
  "snd (mergeTaskData cloudData (snd (mergeTaskData cloudData s)))
     = snd (mergeTaskData cloudData s)
   \<and> fst (mergeTaskData cloudData (snd (mergeTaskData cloudData s)))
     = (if pool cloudData = [] then None else Some TypeError)"
proof -
  let ?s1 = "snd (mergeTaskData cloudData s)"
  have "snd (mergeTaskData cloudData ?s1) = ?s1"
  proof (rule planner_eqI)
    show "currentDate (snd (mergeTaskData cloudData ?s1)) = currentDate ?s1"
      by (simp only: currentDate_mergeTaskData)
    show "personal (tasks (snd (mergeTaskData cloudData ?s1))) = personal (tasks ?s1)"
      using dated_mergeTaskData [of cloudData ?s1 Personal]
        dated_mergeTaskData [of cloudData s Personal]
      by (simp add: buckets_of_def merge_dates_idem)
    show "work (tasks (snd (mergeTaskData cloudData ?s1))) = work (tasks ?s1)"
      using dated_mergeTaskData [of cloudData ?s1 Work]
        dated_mergeTaskData [of cloudData s Work]
      by (simp add: buckets_of_def merge_dates_idem)
    show "pool (tasks (snd (mergeTaskData cloudData ?s1))) = pool (tasks ?s1)"
      by (simp add: pool_mergeTaskData)
  qed
  moreover have "fst (mergeTaskData cloudData ?s1)
      = (if pool cloudData = [] then None else Some TypeError)"
  proof -
    have "fst (mergeTaskData cloudData ?s1)
        = (case merge_pool (pool (tasks ?s1)) (pool cloudData) of
             Inl e \<Rightarrow> Some e | Inr p \<Rightarrow> None)"
      by (simp add: mergeTaskData_def Let_def split: sum.splits)
    then show ?thesis
      by (simp add: pool_mergeTaskData merge_pool_def)
  qed
  ultimately show ?thesis by simp
qed

section \<open>The completed flag and the status\<close>

subsection \<open>A property of every task, kept by the shapes\<close>

lemma all_in_sync_mset: "all_in_sync (tasks s) \<longleftrightarrow> (\<forall>t \<in># task_mset s. in_sync t)"
  by (simp add: all_in_sync_def task_mset_def list_all_iff)

lemma bucket_member:
  assumes "bucket s c k = Some ts" and "j < length ts"
  shows "ts ! j \<in># task_mset s"
proof -
  have "add_mset (ts ! j) (task_mset (put_bucket c k (splice_out j ts) s)) = task_mset s"
    using assms by (rule task_mset_remove_bucket)
  then show ?thesis by (metis union_single_eq_member)
qed

lemma pool_member:
  assumes "j < length (pool (tasks s))"
  shows "pool (tasks s) ! j \<in># task_mset s"
  using assms by (simp add: task_mset_def all_tasks_def)

lemma modify_viewed_all:
  assumes "modify_viewed c i f s = Inr s'" and "\<And>t. P t \<Longrightarrow> P (f t)"
    and "\<forall>t \<in># task_mset s. P t"
  shows "\<forall>t \<in># task_mset s'. P t"
proof (cases "bucket s c (getDateKey s)")
  case None
  with assms(1) show ?thesis by (simp add: modify_viewed_def)
next
  case (Some ts)
  show ?thesis
  proof (cases "findIndex (has_id i) ts")
    case None
    with Some assms(1,3) show ?thesis by (simp add: modify_viewed_def)
  next
    case (Some j)
    note ts = \<open>bucket s c (getDateKey s) = Some ts\<close>
    have j: "j < length ts" using Some by (rule findIndex_Some_lt)
    from Some ts assms(1)
    have s': "s' = put_bucket c (getDateKey s) (ts[j := f (ts ! j)]) s"
      by (simp add: modify_viewed_def)
    have eq: "add_mset (ts ! j) (task_mset s') = add_mset (f (ts ! j)) (task_mset s)"
      unfolding s' using ts j by (rule task_mset_update_bucket)
    have "P (ts ! j)" using assms(3) bucket_member [OF ts j] by blast
    then have "P (f (ts ! j))" by (rule assms(2))
    with assms(3) have "\<forall>t \<in># add_mset (f (ts ! j)) (task_mset s). P t" by simp
    then have "\<forall>t \<in># add_mset (ts ! j) (task_mset s'). P t" by (simp only: eq)
    then show ?thesis by simp
  qed
qed

lemma modify_pool_all:
  assumes "modify_pool i f s = Inr s'" and "\<And>t. P t \<Longrightarrow> P (f t)"
    and "\<forall>t \<in># task_mset s. P t"
  shows "\<forall>t \<in># task_mset s'. P t"
proof (cases "findIndex (has_id i) (pool (tasks s))")
  case None
  with assms(1,3) show ?thesis by (simp add: modify_pool_def)
next
  case (Some j)
  let ?p = "pool (tasks s)"
  have j: "j < length ?p" using Some by (rule findIndex_Some_lt)
  from Some assms(1) have s': "s' = set_pool (?p[j := f (?p ! j)]) s"
    by (simp add: modify_pool_def)
  have eq: "add_mset (?p ! j) (task_mset s') = add_mset (f (?p ! j)) (task_mset s)"
    unfolding s' using j by (rule task_mset_update_pool)
  have "P (?p ! j)" using assms(3) pool_member [OF j] by blast
  then have "P (f (?p ! j))" by (rule assms(2))
  with assms(3) have "\<forall>t \<in># add_mset (f (?p ! j)) (task_mset s). P t" by simp
  then have "\<forall>t \<in># add_mset (?p ! j) (task_mset s'). P t" by (simp only: eq)
  then show ?thesis by simp
qed

lemma take_viewed_all:
  assumes "take_viewed c i g s = Inr s'"
    and "\<And>t s1. P t \<Longrightarrow> \<forall>u \<in># task_mset s1. P u \<Longrightarrow> \<forall>u \<in># task_mset (g t s1). P u"
    and "\<forall>t \<in># task_mset s. P t"
  shows "\<forall>t \<in># task_mset s'. P t"
proof (cases "bucket s c (getDateKey s)")
  case None
  with assms(1) show ?thesis by (simp add: take_viewed_def)
next
  case (Some ts)
  show ?thesis
  proof (cases "findIndex (has_id i) ts")
    case None
    with Some assms(1,3) show ?thesis by (simp add: take_viewed_def)
  next
    case (Some j)
    note ts = \<open>bucket s c (getDateKey s) = Some ts\<close>
    let ?s1 = "put_bucket c (getDateKey s) (splice_out j ts) s"
    have j: "j < length ts" using Some by (rule findIndex_Some_lt)
    from Some ts assms(1) have s': "s' = g (ts ! j) ?s1"
      by (simp add: take_viewed_def)
    have "add_mset (ts ! j) (task_mset ?s1) = task_mset s"
      using ts j by (rule task_mset_remove_bucket)
    with assms(3) have "\<forall>t \<in># add_mset (ts ! j) (task_mset ?s1). P t" by simp
    then have "P (ts ! j)" and "\<forall>u \<in># task_mset ?s1. P u" by simp_all
    then show ?thesis unfolding s' by (rule assms(2))
  qed
qed

lemma take_pool_all:
  assumes "take_pool i g s = Inr s'"
    and "\<And>t s1. P t \<Longrightarrow> \<forall>u \<in># task_mset s1. P u \<Longrightarrow> \<forall>u \<in># task_mset (g t s1). P u"
    and "\<forall>t \<in># task_mset s. P t"
  shows "\<forall>t \<in># task_mset s'. P t"
proof (cases "findIndex (has_id i) (pool (tasks s))")
  case None
  with assms(1,3) show ?thesis by (simp add: take_pool_def)
next
  case (Some j)
  let ?p = "pool (tasks s)"
  let ?s1 = "set_pool (splice_out j ?p) s"
  have j: "j < length ?p" using Some by (rule findIndex_Some_lt)
  from Some assms(1) have s': "s' = g (?p ! j) ?s1"
    by (simp add: take_pool_def)
  have "add_mset (?p ! j) (task_mset ?s1) = task_mset s"
    using j by (rule task_mset_remove_pool)
  with assms(3) have "\<forall>t \<in># add_mset (?p ! j) (task_mset ?s1). P t" by simp
  then have "P (?p ! j)" and "\<forall>u \<in># task_mset ?s1. P u" by simp_all
  then show ?thesis unfolding s' by (rule assms(2))
qed

lemma moveTaskToDate_all:
  assumes "moveTaskToDate tz now c i daysOffset s = Inr s'"
    and "\<And>t. P t \<Longrightarrow> P (t\<lparr>moved := True\<rparr>) \<and> P (t\<lparr>task_id := now, moved := False\<rparr>)"
    and "\<forall>t \<in># task_mset s. P t"
  shows "\<forall>t \<in># task_mset s'. P t"
proof (cases "bucket s c (getDateKey s)")
  case None
  with assms(1) show ?thesis by (simp add: moveTaskToDate_def)
next
  case (Some ts)
  show ?thesis
  proof (cases "findIndex (has_id i) ts")
    case None
    with Some assms(1,3) show ?thesis by (simp add: moveTaskToDate_def)
  next
    case (Some j)
    note ts = \<open>bucket s c (getDateKey s) = Some ts\<close>
    have j: "j < length ts" using Some by (rule findIndex_Some_lt)
    have "P (ts ! j)" using assms(3) bucket_member [OF ts j] by blast
    from assms(2) [OF this] assms(3)
    have "\<forall>t \<in># add_mset ((ts ! j)\<lparr>task_id := now, moved := False\<rparr>)
        (add_mset ((ts ! j)\<lparr>moved := True\<rparr>) (task_mset s)). P t"
      by simp
    then have "\<forall>t \<in># add_mset (ts ! j) (task_mset s'). P t"
      by (simp only: moveTaskToDate_mset [OF ts Some assms(1)])
    then show ?thesis by simp
  qed
qed

subsection \<open>The operations other than the toggle keep the flag and the status in sync\<close>

lemma perform_keeps_sync:
  assumes "perform tz now opn s = Inr s'" and "all_in_sync (tasks s)"
    and "\<And>cat i. opn \<noteq> ToggleTaskInProgress cat i"
  shows "all_in_sync (tasks s')"
proof -
  have all: "\<forall>t \<in># task_mset s. in_sync t"
    using assms(2) by (simp only: all_in_sync_mset)
  have "\<forall>t \<in># task_mset s'. in_sync t"
  proof (cases opn)
    case (AddTask c input)
    with assms(1) all show ?thesis
      by (auto simp: addTask_def Let_def task_mset_push_task in_sync_def split: if_splits)
  next
    case (AddPoolTask input)
    with assms(1) all show ?thesis
      by (auto simp: addPoolTask_def Let_def task_mset_append_pool in_sync_def split: if_splits)
  next
    case (CompleteTask cat i)
    show ?thesis
    proof (cases cat)
      case (Dated c)
      with assms(1) CompleteTask have "modify_viewed c i (\<lambda>t. t\<lparr>completed := True,
          status := ''completed'', completedDate := Some (getDateKey s)\<rparr>) s = Inr s'"
        by (simp add: completeTask_shape)
      then show ?thesis
      proof (rule modify_viewed_all)
        show "\<forall>t \<in># task_mset s. in_sync t" by (rule all)
      qed (simp add: in_sync_def)
    next
      case Pool
      with assms(1) CompleteTask have "take_pool i (\<lambda>t. push_task Personal (getDateKey s)
         (t\<lparr>completed := True, status := ''completed'', completedDate := Some (getDateKey s),
            originalDate := Some (getDateKey s), moved := False\<rparr>)) s = Inr s'"
        by (simp add: completePoolTask_shape)
      then show ?thesis
      proof (rule take_pool_all)
        show "\<forall>t \<in># task_mset s. in_sync t" by (rule all)
      qed (simp add: in_sync_def task_mset_push_task)
    qed
  next
    case (UncompleteTask cat i)
    show ?thesis
    proof (cases cat)
      case (Dated c)
      with assms(1) UncompleteTask have "modify_viewed c i (\<lambda>t. t\<lparr>completed := False,
          status := ''pending'', completedDate := None\<rparr>) s = Inr s'"
        by (simp add: uncompleteTask_shape)
      then show ?thesis
      proof (rule modify_viewed_all)
        show "\<forall>t \<in># task_mset s. in_sync t" by (rule all)
      qed (simp add: in_sync_def)
    next
      case Pool
      with assms(1) UncompleteTask have "modify_pool i (\<lambda>t. t\<lparr>completed := False,
          status := ''pending'', completedDate := None\<rparr>) s = Inr s'"
        by (simp add: uncompleteTask_shape)
      then show ?thesis
      proof (rule modify_pool_all)
        show "\<forall>t \<in># task_mset s. in_sync t" by (rule all)
      qed (simp add: in_sync_def)
    qed
  next
    case (ToggleTaskInProgress cat i)
    with assms(3) show ?thesis by blast
  next
    case (EditTask cat i newText)
    show ?thesis
    proof (cases "trim newText = []")
      case True
      with assms(1) EditTask editTask_empty [of newText cat i s s'] all show ?thesis by simp
    next
      case False
      show ?thesis
      proof (cases cat)
        case (Dated c)
        with assms(1) EditTask False
        have "modify_viewed c i (\<lambda>t. t\<lparr>task_text := trim newText\<rparr>) s = Inr s'"
          by (simp add: editTask_shape)
        then show ?thesis
        proof (rule modify_viewed_all)
          show "\<forall>t \<in># task_mset s. in_sync t" by (rule all)
        qed (simp add: in_sync_def)
      next
        case Pool
        with assms(1) EditTask False
        have "modify_pool i (\<lambda>t. t\<lparr>task_text := trim newText\<rparr>) s = Inr s'"
          by (simp add: editTask_shape)
        then show ?thesis
        proof (rule modify_pool_all)
          show "\<forall>t \<in># task_mset s. in_sync t" by (rule all)
        qed (simp add: in_sync_def)
      qed
    qed
  next
    case (MoveTaskToDate c i daysOffset)
    with assms(1) have "moveTaskToDate tz now c i daysOffset s = Inr s'" by simp
    then show ?thesis
    proof (rule moveTaskToDate_all)
      show "\<forall>t \<in># task_mset s. in_sync t" by (rule all)
    qed (simp add: in_sync_def)
  next
    case (MoveTaskBetweenCategories c c' i)
    with assms(1) have "take_viewed c i
       (\<lambda>t. push_task c' (getDateKey s) (t\<lparr>task_id := now, moved := False\<rparr>)) s = Inr s'"
      by (simp add: moveTaskBetweenCategories_shape)
    then show ?thesis
    proof (rule take_viewed_all)
      show "\<forall>t \<in># task_mset s. in_sync t" by (rule all)
    qed (simp add: in_sync_def task_mset_push_task)
  next
    case (MovePoolTaskToDate c i)
    with assms(1) have "take_pool i (\<lambda>t. push_task c (getDateKey s)
         (t\<lparr>task_id := now, originalDate := Some (getDateKey s), moved := False\<rparr>)) s = Inr s'"
      by (simp add: movePoolTaskToDate_shape)
    then show ?thesis
    proof (rule take_pool_all)
      show "\<forall>t \<in># task_mset s. in_sync t" by (rule all)
    qed (simp add: in_sync_def task_mset_push_task)
  next
    case (MovePoolTaskToSpecificDate i targetDate)
    with assms(1) have "take_pool i (\<lambda>t. push_task Personal (formatDateKey targetDate)
         (t\<lparr>task_id := now, originalDate := Some (formatDateKey targetDate),
            moved := False\<rparr>)) s = Inr s'"
      by (simp add: movePoolTaskToSpecificDate_shape)
    then show ?thesis
    proof (rule take_pool_all)
      show "\<forall>t \<in># task_mset s. in_sync t" by (rule all)
    qed (simp add: in_sync_def task_mset_push_task)
  next
    case (MoveTaskToPool c i)
    with assms(1) have "take_viewed c i (\<lambda>t s1. set_pool (pool (tasks s1) @
         [t\<lparr>task_id := now, originalDate := None, moved := False, completed := False,
            status := (if status t = ''completed'' then ''pending'' else status t),
            completedDate := None\<rparr>]) s1) s = Inr s'"
      by (simp add: moveTaskToPool_shape)
    then show ?thesis
    proof (rule take_viewed_all)
      show "\<forall>t \<in># task_mset s. in_sync t" by (rule all)
    qed (simp add: in_sync_def task_mset_append_pool)
  next
    case (DeleteTask cat i)
    show ?thesis
    proof (cases cat)
      case (Dated c)
      with assms(1) DeleteTask have "take_viewed c i (\<lambda>t s1. s1) s = Inr s'"
        by (simp add: deleteTask_shape)
      then show ?thesis
      proof (rule take_viewed_all)
        show "\<forall>t \<in># task_mset s. in_sync t" by (rule all)
      qed simp
    next
      case Pool
      with assms(1) DeleteTask have "take_pool i (\<lambda>t s1. s1) s = Inr s'"
        by (simp add: deleteTask_shape)
      then show ?thesis
      proof (rule take_pool_all)
        show "\<forall>t \<in># task_mset s. in_sync t" by (rule all)
      qed simp
    qed
  next
    case (ReorderTasks cat d t b)
    with assms(1) all show ?thesis by (simp add: reorderTasks_mset)
  qed
  then show ?thesis by (simp only: all_in_sync_mset)
qed

lemma toggle_keeps_sync_of_open_tasks:
  assumes "toggleTaskInProgress cat i s = Inr s'" and "all_in_sync (tasks s)"
    and "\<forall>t \<in># task_mset s. status t \<noteq> ''completed''"
  shows "all_in_sync (tasks s')"
proof -
  let ?P = "\<lambda>t. in_sync t \<and> status t \<noteq> ''completed''"
  have all: "\<forall>t \<in># task_mset s. ?P t"
    using assms(2,3) by (simp add: all_in_sync_mset)
  have step: "\<And>t. ?P t \<Longrightarrow> ?P (toggle t)"
    by (simp add: toggle_def in_sync_def)
  have "\<forall>t \<in># task_mset s'. ?P t"
  proof (cases cat)
    case (Dated c)
    with assms(1) have "modify_viewed c i toggle s = Inr s'"
      by (simp add: toggleTaskInProgress_shape)
    then show ?thesis using step all by (rule modify_viewed_all)
  next
    case Pool
    with assms(1) have "modify_pool i toggle s = Inr s'"
      by (simp add: toggleTaskInProgress_shape)
    then show ?thesis using step all by (rule modify_pool_all)
  qed
  then show ?thesis by (simp add: all_in_sync_mset)
qed

lemma toggle_keeps_open_task_in_sync: "status t \<noteq> ''completed'' \<Longrightarrow> in_sync (toggle t)"
  by (simp add: toggle_def in_sync_def)

lemma toggle_breaks_completed_task: "status t = ''completed'' \<Longrightarrow> \<not> in_sync (toggle t)"
  by (simp add: toggle_def in_sync_def)

text \<open>
  C1. The claim: after every operation, every task has \<open>completed\<close> equal to
  \<open>status == "completed"\<close>, and the in-progress toggle keeps this for a task of any
  status. On a completed task \<open>toggleTaskInProgress\<close> leaves the status \<open>completed\<close> and
  sets \<open>completed\<close> to \<open>false\<close>: the collection was in sync before and is not after.
\<close>

theorem toggleTaskInProgress_completed_out_of_sync:
  "all_in_sync (tasks done_planner)
   \<and> toggleTaskInProgress (Dated Personal) 1 done_planner = Inr toggled_planner
   \<and> \<not> all_in_sync (tasks toggled_planner)"
  by code_simp

section \<open>An id that is not found\<close>

lemma missing_bucket_is_TypeError:
  assumes "bucket s c (getDateKey s) = None"
  shows "completeTask (Dated c) i s = Inl TypeError"
    and "uncompleteTask (Dated c) i s = Inl TypeError"
    and "toggleTaskInProgress (Dated c) i s = Inl TypeError"
    and "editTask (Dated c) i newText s = Inl TypeError"
    and "moveTaskToDate tz now c i daysOffset s = Inl TypeError"
    and "moveTaskBetweenCategories now c c' i s = Inl TypeError"
    and "moveTaskToPool now c i s = Inl TypeError"
    and "reorderTasks (Dated c) i i' before s = Inl TypeError"
    and "deleteTask (Dated c) i s = Inl TypeError"
  using assms
  by (simp_all add: completeTask_def uncompleteTask_def toggleTaskInProgress_def editTask_def
      moveTaskToDate_def moveTaskBetweenCategories_def moveTaskToPool_def reorderTasks_def
      deleteTask_def)

lemma absent_id_is_no_op:
  assumes "bucket s c (getDateKey s) = Some ts" and "findIndex (has_id i) ts = None"
  shows "completeTask (Dated c) i s = Inr s"
    and "uncompleteTask (Dated c) i s = Inr s"
    and "toggleTaskInProgress (Dated c) i s = Inr s"
    and "editTask (Dated c) i newText s = Inr s"
    and "moveTaskToDate tz now c i daysOffset s = Inr s"
    and "moveTaskBetweenCategories now c c' i s = Inr s"
    and "moveTaskToPool now c i s = Inr s"
    and "reorderTasks (Dated c) i i' before s = Inr s"
    and "reorderTasks (Dated c) i' i before s = Inr s"
    and "deleteTask (Dated c) i s = Inr s"
  using assms
  by (simp_all add: completeTask_def uncompleteTask_def toggleTaskInProgress_def editTask_def
      moveTaskToDate_def moveTaskBetweenCategories_def moveTaskToPool_def reorderTasks_def
      reorder_def deleteTask_def split: option.splits)

lemma absent_pool_id_is_no_op:
  assumes "findIndex (has_id i) (pool (tasks s)) = None"
  shows "completeTask Pool i s = Inr s"
    and "uncompleteTask Pool i s = Inr s"
    and "toggleTaskInProgress Pool i s = Inr s"
    and "editTask Pool i newText s = Inr s"
    and "movePoolTaskToDate now c i s = Inr s"
    and "movePoolTaskToSpecificDate now i targetDate s = Inr s"
    and "reorderTasks Pool i i' before s = Inr s"
    and "reorderTasks Pool i' i before s = Inr s"
    and "deleteTask Pool i s = Inr s"
  using assms
  by (simp_all add: completeTask_def completePoolTask_def uncompleteTask_def
      toggleTaskInProgress_def editTask_def movePoolTaskToDate_def
      movePoolTaskToSpecificDate_def reorderTasks_def reorder_def deleteTask_def
      split: option.splits)

text \<open>
  C2. The claim: an operation whose id cannot be found is a silent no-op, also when the
  addressed bucket does not exist. In the planner without any bucket, the viewed bucket
  \<open>this.tasks[category][dateKey]\<close> is \<open>undefined\<close> and every operation that searches it
  throws a \<open>TypeError\<close>.
\<close>

theorem missing_bucket_throws:
  "completeTask (Dated Personal) 5 fresh_planner = Inl TypeError
   \<and> uncompleteTask (Dated Personal) 5 fresh_planner = Inl TypeError
   \<and> toggleTaskInProgress (Dated Personal) 5 fresh_planner = Inl TypeError
   \<and> editTask (Dated Personal) 5 (js ''x'') fresh_planner = Inl TypeError
   \<and> moveTaskToDate utc 7 Personal 5 1 fresh_planner = Inl TypeError
   \<and> moveTaskBetweenCategories 7 Personal Work 5 fresh_planner = Inl TypeError
   \<and> moveTaskToPool 7 Personal 5 fresh_planner = Inl TypeError
   \<and> reorderTasks (Dated Personal) 5 6 True fresh_planner = Inl TypeError
   \<and> deleteTask (Dated Personal) 5 fresh_planner = Inl TypeError"
  by code_simp

section \<open>The date key and the local calendar day\<close>

lemma localDateKey_utc: "localDateKey 0 date = formatDateKey date"
  by (simp add: localDateKey_def formatDateKey_def)

lemma localDateKey_shift: "localDateKey tz date = formatDateKey (date + tz * 60000)"
  by (simp add: localDateKey_def formatDateKey_def)

text \<open>
  C7. The claim: the date key is the local calendar date of the viewed day, for every
  date and time zone. Two hours east of UTC, local midnight of 5 March 2024 is
  22:00 UTC of 4 March: \<open>formatDateKey\<close> gives the UTC day, not the local one.
\<close>

theorem formatDateKey_is_utc_day:
  "formatDateKey 1709589600000 = ''2024-03-04''
   \<and> localDateKey 120 1709589600000 = ''2024-03-05''"
  by code_simp

section \<open>Unique ids\<close>
























section \<open>The number of tasks\<close>









section \<open>The tasks of the pool\<close>

lemma list_all_splice_out: "list_all P xs \<Longrightarrow> list_all P (splice_out j xs)"
  using set_splice_out [of j xs] by (auto simp: list_all_iff)

lemma list_all_update: "list_all P xs \<Longrightarrow> P y \<Longrightarrow> list_all P (xs[j := y])"
  using set_update_subset_insert [of xs j y] by (auto simp: list_all_iff)

lemma modify_viewed_pool: "modify_viewed c i f s = Inr s' \<Longrightarrow> pool (tasks s') = pool (tasks s)"
  by (auto simp: modify_viewed_def split: option.splits)

lemma modify_pool_ok:
  assumes "modify_pool i f s = Inr s'" and "\<And>t. pool_task_ok t \<Longrightarrow> pool_task_ok (f t)"
    and "pool_ok (tasks s)"
  shows "pool_ok (tasks s')"
proof (cases "findIndex (has_id i) (pool (tasks s))")
  case None
  with assms(1,3) show ?thesis by (simp add: modify_pool_def)
next
  case (Some j)
  let ?p = "pool (tasks s)"
  from Some assms(1) have s': "s' = set_pool (?p[j := f (?p ! j)]) s"
    by (simp add: modify_pool_def)
  have "pool_task_ok (?p ! j)"
    using assms(3) findIndex_Some_lt [OF Some] by (simp add: pool_ok_def list_all_length)
  then have "pool_task_ok (f (?p ! j))" by (rule assms(2))
  with assms(3) show ?thesis
    unfolding s' by (simp add: pool_ok_def list_all_update)
qed

lemma take_viewed_pool_ok:
  assumes "take_viewed c i g s = Inr s'"
    and "\<And>t s1. pool_ok (tasks s1) \<Longrightarrow> pool_ok (tasks (g t s1))"
    and "pool_ok (tasks s)"
  shows "pool_ok (tasks s')"
proof -
  have "\<And>k v. pool_ok (tasks (put_bucket c k v s))"
    using assms(3) by (simp add: pool_ok_def)
  with assms show ?thesis
    by (auto simp: take_viewed_def split: option.splits)
qed

lemma take_pool_pool_ok:
  assumes "take_pool i g s = Inr s'"
    and "\<And>t s1. pool_ok (tasks s1) \<Longrightarrow> pool_ok (tasks (g t s1))"
    and "pool_ok (tasks s)"
  shows "pool_ok (tasks s')"
proof -
  have "\<And>j. pool_ok (tasks (set_pool (splice_out j (pool (tasks s))) s))"
    using assms(3) by (simp add: pool_ok_def list_all_splice_out)
  with assms show ?thesis
    by (auto simp: take_pool_def split: option.splits)
qed

lemma push_task_pool_ok: "pool_ok (tasks s1) \<Longrightarrow> pool_ok (tasks (push_task c k t s1))"
  by (simp add: pool_ok_def)

lemma toggle_pool_task_ok: "pool_task_ok t \<Longrightarrow> pool_task_ok (toggle t)"
  by (simp add: pool_task_ok_def toggle_def)

lemma reorder_pool_ok:
  "reorder d t b ts = Some ts' \<Longrightarrow> list_all P ts \<Longrightarrow> list_all P ts'"
  using mset_eq_setD [OF reorder_mset, of d t b ts ts'] by (simp add: list_all_iff)

lemma perform_pool_ok:
  assumes "perform tz now opn s = Inr s'" and "pool_ok (tasks s)"
  shows "pool_ok (tasks s')"
proof (cases opn)
  case (AddTask c input)
  with assms show ?thesis
    by (auto simp: addTask_def Let_def push_task_pool_ok split: if_splits)
next
  case (AddPoolTask input)
  with assms show ?thesis
    by (auto simp: addPoolTask_def Let_def pool_ok_def pool_task_ok_def split: if_splits)
next
  case (CompleteTask cat i)
  show ?thesis
  proof (cases cat)
    case (Dated c)
    with assms CompleteTask show ?thesis
      by (auto simp: completeTask_shape dest: modify_viewed_pool simp: pool_ok_def)
  next
    case Pool
    with assms(1) CompleteTask have "take_pool i (\<lambda>t. push_task Personal (getDateKey s)
       (t\<lparr>completed := True, status := ''completed'', completedDate := Some (getDateKey s),
          originalDate := Some (getDateKey s), moved := False\<rparr>)) s = Inr s'"
      by (simp add: completePoolTask_shape)
    then show ?thesis using push_task_pool_ok assms(2) by (rule take_pool_pool_ok)
  qed
next
  case (UncompleteTask cat i)
  show ?thesis
  proof (cases cat)
    case (Dated c)
    with assms UncompleteTask show ?thesis
      by (auto simp: uncompleteTask_shape dest: modify_viewed_pool simp: pool_ok_def)
  next
    case Pool
    with assms(1) UncompleteTask have "modify_pool i (\<lambda>t. t\<lparr>completed := False,
        status := ''pending'', completedDate := None\<rparr>) s = Inr s'"
      by (simp add: uncompleteTask_shape)
    then show ?thesis
      by (rule modify_pool_ok) (simp_all add: pool_task_ok_def assms(2))
  qed
next
  case (ToggleTaskInProgress cat i)
  show ?thesis
  proof (cases cat)
    case (Dated c)
    with assms ToggleTaskInProgress show ?thesis
      by (auto simp: toggleTaskInProgress_shape dest: modify_viewed_pool simp: pool_ok_def)
  next
    case Pool
    with assms(1) ToggleTaskInProgress have "modify_pool i toggle s = Inr s'"
      by (simp add: toggleTaskInProgress_shape)
    then show ?thesis using toggle_pool_task_ok assms(2) by (rule modify_pool_ok)
  qed
next
  case (EditTask cat i newText)
  show ?thesis
  proof (cases "trim newText = []")
    case True
    with assms EditTask editTask_empty [of newText cat i s s'] show ?thesis by simp
  next
    case False
    show ?thesis
    proof (cases cat)
      case (Dated c)
      with assms EditTask False show ?thesis
        by (auto simp: editTask_shape dest: modify_viewed_pool simp: pool_ok_def)
    next
      case Pool
      with assms(1) EditTask False
      have "modify_pool i (\<lambda>t. t\<lparr>task_text := trim newText\<rparr>) s = Inr s'"
        by (simp add: editTask_shape)
      then show ?thesis
        by (rule modify_pool_ok) (simp_all add: pool_task_ok_def assms(2))
    qed
  qed
next
  case (MoveTaskToDate c i daysOffset)
  with assms show ?thesis
    by (auto simp: moveTaskToDate_def Let_def pool_ok_def split: option.splits)
next
  case (MoveTaskBetweenCategories c c' i)
  with assms(1) have "take_viewed c i
     (\<lambda>t. push_task c' (getDateKey s) (t\<lparr>task_id := now, moved := False\<rparr>)) s = Inr s'"
    by (simp add: moveTaskBetweenCategories_shape)
  then show ?thesis using push_task_pool_ok assms(2) by (rule take_viewed_pool_ok)
next
  case (MovePoolTaskToDate c i)
  with assms(1) have "take_pool i (\<lambda>t. push_task c (getDateKey s)
       (t\<lparr>task_id := now, originalDate := Some (getDateKey s), moved := False\<rparr>)) s = Inr s'"
    by (simp add: movePoolTaskToDate_shape)
  then show ?thesis using push_task_pool_ok assms(2) by (rule take_pool_pool_ok)
next
  case (MovePoolTaskToSpecificDate i targetDate)
  with assms(1) have "take_pool i (\<lambda>t. push_task Personal (formatDateKey targetDate)
       (t\<lparr>task_id := now, originalDate := Some (formatDateKey targetDate), moved := False\<rparr>)) s
     = Inr s'"
    by (simp add: movePoolTaskToSpecificDate_shape)
  then show ?thesis using push_task_pool_ok assms(2) by (rule take_pool_pool_ok)
next
  case (MoveTaskToPool c i)
  with assms(1) have "take_viewed c i (\<lambda>t s1. set_pool (pool (tasks s1) @
       [t\<lparr>task_id := now, originalDate := None, moved := False, completed := False,
          status := (if status t = ''completed'' then ''pending'' else status t),
          completedDate := None\<rparr>]) s1) s = Inr s'"
    by (simp add: moveTaskToPool_shape)
  then show ?thesis
  proof (rule take_viewed_pool_ok)
    show "pool_ok (tasks s)" by (rule assms(2))
  qed (simp add: pool_ok_def pool_task_ok_def)
next
  case (DeleteTask cat i)
  show ?thesis
  proof (cases cat)
    case (Dated c)
    with assms(1) DeleteTask have "take_viewed c i (\<lambda>t s1. s1) s = Inr s'"
      by (simp add: deleteTask_shape)
    then show ?thesis by (rule take_viewed_pool_ok) (simp_all add: assms(2))
  next
    case Pool
    with assms(1) DeleteTask have "take_pool i (\<lambda>t s1. s1) s = Inr s'"
      by (simp add: deleteTask_shape)
    then show ?thesis by (rule take_pool_pool_ok) (simp_all add: assms(2))
  qed
next
  case (ReorderTasks cat d t b)
  with assms show ?thesis
    by (cases cat)
      (auto simp: reorderTasks_def Let_def pool_ok_def reorder_pool_ok split: option.splits)
qed

text \<open>
  C8. The claim: after every operation, the pull among them, every task of the pool has
  no original date and is not completed. The pull installs the downloaded snapshot as it
  is: a snapshot with a completed, dated task in its pool leaves that task in the pool.
  The sync does the same to a planner whose pool is empty: the merge stores the
  snapshot's pool there, task by task.
\<close>

theorem pull_breaks_pool_counterexample:
  "pool_ok (tasks fresh_planner)
   \<and> \<not> pool_ok (tasks (handleDownload True (Inr done_cloud) fresh_planner))
   \<and> \<not> pool_ok (tasks (handleSync True (Inr done_cloud) fresh_planner))"
  by code_simp

text \<open>
  C8, amended. Every operation of the planner keeps the pool free of dated and of
  completed tasks. A pull and a sync do not look at the tasks they store: after a pull
  the collection is the snapshot, so the pool is as the snapshot has it; after a sync the
  pool is the snapshot's pool if the local pool was empty, and the local pool otherwise.
  So both keep the pool free of dated and of completed tasks when the snapshot's pool is
  free of them, and only then. Without a token, or when the download fails, neither
  changes anything.
\<close>

theorem pool_stays_undated_and_open:
  "(pool_ok (tasks s) \<and> perform tz now opn s = Inr s' \<longrightarrow> pool_ok (tasks s'))
   \<and> pool (tasks (handleSync True (Inr cloudData) s0))
       = (if pool (tasks s0) = [] then pool cloudData else pool (tasks s0))
   \<and> tasks (handleDownload True (Inr cloudData) s0) = cloudData
   \<and> (pool_ok (tasks s1) \<and> pool_ok snapshot \<longrightarrow>
        pool_ok (tasks (handleSync True (Inr snapshot) s1))
        \<and> pool_ok (tasks (handleDownload True (Inr snapshot) s1)))
   \<and> handleSync hasToken (Inl message) s0 = s0
   \<and> handleSync False anyDownload s0 = s0
   \<and> handleDownload hasToken (Inl message) s0 = s0
   \<and> handleDownload False anyDownload s0 = s0"
proof -
  have "pool_ok (tasks s) \<and> perform tz now opn s = Inr s' \<longrightarrow> pool_ok (tasks s')"
    using perform_pool_ok by blast
  moreover have "pool (tasks (handleSync True (Inr cloudData) s0))
       = (if pool (tasks s0) = [] then pool cloudData else pool (tasks s0))"
    by (simp add: handleSync_def pool_mergeTaskData)
  moreover have "tasks (handleDownload True (Inr cloudData) s0) = cloudData"
    by (simp add: handleDownload_def)
  moreover have "pool_ok (tasks s1) \<and> pool_ok snapshot \<longrightarrow>
        pool_ok (tasks (handleSync True (Inr snapshot) s1))
        \<and> pool_ok (tasks (handleDownload True (Inr snapshot) s1))"
    by (simp add: handleSync_def handleDownload_def pool_mergeTaskData pool_ok_def)
  moreover have "handleSync hasToken (Inl message) s0 = s0"
    by (simp add: handleSync_def)
  moreover have "handleSync False anyDownload s0 = s0"
    by (simp add: handleSync_def)
  moreover have "handleDownload hasToken (Inl message) s0 = s0"
    by (simp add: handleDownload_def)
  moreover have "handleDownload False anyDownload s0 = s0"
    by (simp add: handleDownload_def)
  ultimately show ?thesis by blast
qed

theorem pool_stays_undated_and_open_witness:
  "pool_ok (tasks done_planner)
   \<and> perform utc 9 (MoveTaskToPool Personal 1) done_planner = Inr pooled_planner
   \<and> pool_ok (tasks pooled_planner)
   \<and> pool_ok (tasks busy_planner)
   \<and> pool (tasks busy_planner) \<noteq> []
   \<and> pool_ok (tasks (handleSync True (Inr (tasks busy_planner)) done_planner))
   \<and> pool_ok (tasks (handleDownload True (Inr (tasks busy_planner)) done_planner))"
proof -
  have h: "pool_ok (tasks done_planner)
      \<and> perform utc 9 (MoveTaskToPool Personal 1) done_planner = Inr pooled_planner
      \<and> pool_ok (tasks busy_planner)
      \<and> pool (tasks busy_planner) \<noteq> []"
    by code_simp
  from pool_stays_undated_and_open
    [where s = done_planner and tz = utc and now = 9 and opn = "MoveTaskToPool Personal 1"
      and s' = pooled_planner and ?s1.0 = done_planner and snapshot = "tasks busy_planner"] h
  show ?thesis by blast
qed

section \<open>The move to an adjacent date\<close>




section \<open>Delete\<close>

lemma not_has_id: "(\<lambda>t. \<not> has_id i t) = (\<lambda>t. task_id t \<noteq> i)"
  by (simp add: has_id_def)

lemma splice_out_found:
  assumes "findIndex (has_id i) ts = Some j"
  shows "splice_out j ts = without_first i ts"
proof -
  have "take j ts = takeWhile (\<lambda>t. task_id t \<noteq> i) ts"
    using findIndex_takeWhile [OF assms] by (simp only: not_has_id)
  moreover have "drop j ts = dropWhile (\<lambda>t. task_id t \<noteq> i) ts"
    using findIndex_dropWhile [OF assms] by (simp only: not_has_id)
  moreover have "drop (Suc j) ts = drop 1 (drop j ts)" by simp
  ultimately show ?thesis by (simp only: splice_out_def without_first_def)
qed

lemma without_first_absent:
  assumes "findIndex (has_id i) ts = None"
  shows "without_first i ts = ts"
proof -
  from assms have "\<forall>t \<in> set ts. task_id t \<noteq> i"
    by (simp add: findIndex_None_iff has_id_def)
  then have a: "takeWhile (\<lambda>t. task_id t \<noteq> i) ts = ts"
    and b: "dropWhile (\<lambda>t. task_id t \<noteq> i) ts = []"
    by (simp_all add: takeWhile_eq_all_conv dropWhile_eq_Nil_conv)
  show ?thesis unfolding without_first_def a b by simp
qed

lemma findIndex_Some_ex: "findIndex P xs = Some j \<Longrightarrow> list_ex P xs"
  by (induction xs arbitrary: j) (auto split: if_splits)

text \<open>
  C10. The claim: delete removes the task from whichever bucket holds the id, whatever
  date is viewed. \<open>deleteTask\<close> searches the bucket of the given category at the viewed
  date only (or the pool): task 1 lives under 4 March, the planner views 5 March, and
  deleting task 1 from \<open>personal\<close> or from the pool changes nothing.
\<close>

theorem delete_elsewhere_counterexample:
  "1 \<in> set (all_ids (tasks yesterday_planner))
   \<and> deleteTask (Dated Personal) 1 yesterday_planner = Inr yesterday_planner
   \<and> deleteTask (Dated Work) 1 (yesterday_planner\<lparr>tasks :=
         (tasks yesterday_planner)\<lparr>work := [(''2024-03-05'', [])]\<rparr>\<rparr>)
       = Inr (yesterday_planner\<lparr>tasks :=
         (tasks yesterday_planner)\<lparr>work := [(''2024-03-05'', [])]\<rparr>\<rparr>)
   \<and> deleteTask Pool 1 yesterday_planner = Inr yesterday_planner"
  by code_simp

text \<open>
  C10, amended. Delete addresses one bucket: the bucket of the given category at the
  viewed date, or the pool. When that bucket exists, delete succeeds, the bucket loses
  the first task with the id and keeps the rest in order, every other bucket and the
  pool are unchanged, and the planner is unchanged when the bucket has no task with
  the id.
\<close>

theorem deleteTask_addressed_bucket:
  "(bucket s c (getDateKey s) = Some ts \<longrightarrow>
      (\<exists>s'. deleteTask (Dated c) taskId s = Inr s'
         \<and> bucket s' c (getDateKey s) = Some (without_first taskId ts)
         \<and> (\<forall>c' k. c' \<noteq> c \<or> k \<noteq> getDateKey s \<longrightarrow> bucket s' c' k = bucket s c' k)
         \<and> pool (tasks s') = pool (tasks s)
         \<and> currentDate s' = currentDate s
         \<and> (\<not> list_ex (has_id taskId) ts \<longrightarrow> s' = s)))
   \<and> (\<exists>s'. deleteTask Pool taskId s = Inr s'
         \<and> pool (tasks s') = without_first taskId (pool (tasks s))
         \<and> (\<forall>c' k. bucket s' c' k = bucket s c' k)
         \<and> currentDate s' = currentDate s
         \<and> (\<not> in_pool s taskId \<longrightarrow> s' = s))"
proof (intro conjI impI)
  assume ts: "bucket s c (getDateKey s) = Some ts"
  show "\<exists>s'. deleteTask (Dated c) taskId s = Inr s'
         \<and> bucket s' c (getDateKey s) = Some (without_first taskId ts)
         \<and> (\<forall>c' k. c' \<noteq> c \<or> k \<noteq> getDateKey s \<longrightarrow> bucket s' c' k = bucket s c' k)
         \<and> pool (tasks s') = pool (tasks s)
         \<and> currentDate s' = currentDate s
         \<and> (\<not> list_ex (has_id taskId) ts \<longrightarrow> s' = s)"
  proof (cases "findIndex (has_id taskId) ts")
    case None
    with ts have "deleteTask (Dated c) taskId s = Inr s"
      by (simp add: deleteTask_def)
    with ts without_first_absent [OF None] show ?thesis by simp
  next
    case (Some j)
    let ?s' = "put_bucket c (getDateKey s) (splice_out j ts) s"
    from Some ts have "deleteTask (Dated c) taskId s = Inr ?s'"
      by (simp add: deleteTask_def)
    moreover have "bucket ?s' c (getDateKey s) = Some (without_first taskId ts)"
      by (simp add: bucket_put_bucket splice_out_found [OF Some])
    moreover have "\<forall>c' k. c' \<noteq> c \<or> k \<noteq> getDateKey s \<longrightarrow> bucket ?s' c' k = bucket s c' k"
      by (auto simp: bucket_put_bucket)
    moreover have "list_ex (has_id taskId) ts"
      using Some by (rule findIndex_Some_ex)
    ultimately show ?thesis by simp
  qed
next
  show "\<exists>s'. deleteTask Pool taskId s = Inr s'
         \<and> pool (tasks s') = without_first taskId (pool (tasks s))
         \<and> (\<forall>c' k. bucket s' c' k = bucket s c' k)
         \<and> currentDate s' = currentDate s
         \<and> (\<not> in_pool s taskId \<longrightarrow> s' = s)"
  proof (cases "findIndex (has_id taskId) (pool (tasks s))")
    case None
    then have "deleteTask Pool taskId s = Inr s"
      by (simp add: deleteTask_def)
    with without_first_absent [OF None] show ?thesis by simp
  next
    case (Some j)
    let ?s' = "set_pool (splice_out j (pool (tasks s))) s"
    from Some have "deleteTask Pool taskId s = Inr ?s'"
      by (simp add: deleteTask_def)
    moreover have "pool (tasks ?s') = without_first taskId (pool (tasks s))"
      by (simp add: splice_out_found [OF Some])
    moreover have "in_pool s taskId"
      unfolding in_pool_def using Some by (rule findIndex_Some_ex)
    ultimately show ?thesis by simp
  qed
qed

theorem deleteTask_addressed_bucket_witness:
  "bucket yesterday_planner Personal (getDateKey yesterday_planner) = Some [bread]
   \<and> (\<exists>s'. deleteTask (Dated Personal) 2 yesterday_planner = Inr s'
        \<and> bucket s' Personal (getDateKey yesterday_planner) = Some []
        \<and> bucket s' Personal ''2024-03-04'' = Some [milk])"
proof -
  have h: "bucket yesterday_planner Personal (getDateKey yesterday_planner) = Some [bread]"
    by code_simp
  have k: "''2024-03-04'' \<noteq> getDateKey yesterday_planner
      \<and> bucket yesterday_planner Personal ''2024-03-04'' = Some [milk]
      \<and> without_first 2 [bread] = []"
    by code_simp
  from deleteTask_addressed_bucket [of yesterday_planner Personal "[bread]" 2] h
  obtain s' where s': "deleteTask (Dated Personal) 2 yesterday_planner = Inr s'"
    "bucket s' Personal (getDateKey yesterday_planner) = Some (without_first 2 [bread])"
    "\<forall>c' k. c' \<noteq> Personal \<or> k \<noteq> getDateKey yesterday_planner
        \<longrightarrow> bucket s' c' k = bucket yesterday_planner c' k"
    by blast
  from s'(3) k have "bucket s' Personal ''2024-03-04'' = Some [milk]" by metis
  with s'(1,2) h k show ?thesis by auto
qed

end
